theory Spec2Isabelle
  imports
    Main
    "HOL-Library.Word"
    "HOL-Library.Sublist"
    "HOL-Library.Char_ord"
    "HOL-Library.List_Lexorder"
begin

section \<open>Constants and data of duetbackup.go\<close>

definition typeDirectory :: string where
  "typeDirectory = ''d''"

definition typeFile :: string where
  "typeFile = ''f''"

definition fileDownloadURL :: string where
  "fileDownloadURL = ''/rr_download?name=''"

definition fileListURL :: string where
  "fileListURL = ''/rr_filelist?dir=''"

definition dirMarker :: string where
  "dirMarker = ''.duetbackup''"

text \<open>
  A \<open>localTime\<close> is a point in time; it is kept as a number of seconds. The wire
  format has a resolution of one second.
\<close>

type_synonym localTime = int

text \<open>The struct \<open>file\<close>: one element of the \<open>files\<close> array of an \<open>rr_filelist\<close> response.\<close>

record file' =
  Type :: string
  Name :: string
  Size :: "64 word"
  Date :: localTime

text \<open>
  The struct \<open>filelist\<close>. Its third field is spelled \<open>next\<close> in the source, in lower
  case, which makes it an unexported field of the struct.
\<close>

record filelist =
  Dir :: string
  Files :: "file' list"
  next' :: "64 word"

section \<open>The exclude matcher\<close>

record excludes =
  excls :: "string list"

text \<open>
  \<open>multiSlashRegex.ReplaceAllString(path, "/")\<close> with the regular expression
  \<open>/{2,}\<close>: every maximal run of two or more slashes becomes one slash.
\<close>

fun replaceMultiSlash :: "string \<Rightarrow> string" where
  "replaceMultiSlash (a # b # cs) =
     (if a = CHR ''/'' \<and> b = CHR ''/'' then replaceMultiSlash (b # cs)
      else a # replaceMultiSlash (b # cs))"
| "replaceMultiSlash cs = cs"

text \<open>\<open>strings.TrimSuffix\<close> and \<open>strings.HasPrefix\<close>.\<close>

definition TrimSuffix :: "string \<Rightarrow> string \<Rightarrow> string" where
  "TrimSuffix s suf = (if suffix suf s then take (length s - length suf) s else s)"

definition HasPrefix :: "string \<Rightarrow> string \<Rightarrow> bool" where
  "HasPrefix s pre = prefix pre s"

definition cleanPath :: "string \<Rightarrow> string" where
  "cleanPath path = TrimSuffix (replaceMultiSlash path) ''/''"

text \<open>\<open>excludes.Set\<close> appends the cleaned value; it never fails.\<close>

definition excludes_Set :: "excludes \<Rightarrow> string \<Rightarrow> excludes" where
  "excludes_Set e v = e\<lparr>excls := excls e @ [cleanPath v]\<rparr>"

text \<open>\<open>excludes.Contains\<close>: the loop over \<open>e.excls\<close> returns at the first hit.\<close>

fun containsLoop :: "string list \<Rightarrow> string \<Rightarrow> bool" where
  "containsLoop [] path = False"
| "containsLoop (excl # rest) path =
     (if HasPrefix path excl then True else containsLoop rest path)"

definition excludes_Contains :: "excludes \<Rightarrow> string \<Rightarrow> bool" where
  "excludes_Contains e path = containsLoop (excls e) path"

section \<open>The environment: local file system, clock and remote server\<close>

text \<open>
  A local path is the list of its segments below the root. \<open>filepath.Join(dir, name)\<close>
  is \<open>dir @ [name]\<close>: the names of a listing are taken to be single path segments.
  \<open>filepath.Abs\<close> is the identity, the paths of the model being absolute.
\<close>

type_synonym path = "string list"

text \<open>
  The body of an HTTP response is either the JSON text of an \<open>rr_filelist\<close> object,
  kept in parsed form with the three members of the protocol, or any other byte string.
\<close>

record rr_filelist =
  json_dir :: string
  json_files :: "file' list"
  json_next :: "64 word"

datatype body = JSON rr_filelist | Raw string

datatype error =
  ENOENT | ENOTDIR | EISDIR | EPERM | EIO | TransportError | SyntaxError

text \<open>
  A node of the local file system, with its modification time. A directory keeps the
  time of its creation: changes of its entries do not move it.
\<close>

datatype node = Regular body localTime | Directory localTime

fun IsDir :: "node \<Rightarrow> bool" where
  "IsDir (Directory t) = True"
| "IsDir (Regular c t) = False"

fun ModTime :: "node \<Rightarrow> localTime" where
  "ModTime (Directory t) = t"
| "ModTime (Regular c t) = t"

text \<open>The calls into package \<open>os\<close> that can fail for reasons outside the tree itself.\<close>

datatype fsop =
  OpStat path | OpMkdirAll path | OpCreate path | OpWrite path
  | OpChtimes path | OpReadDir path | OpRemoveAll path

text \<open>
  The world the program runs in: the local tree as an association list from paths to
  nodes, the wall clock, the operations that the operating system refuses (permissions,
  space, I/O), and the log of the GET requests sent so far.
\<close>

record world =
  fs :: "(path \<times> node) list"
  now :: localTime
  broken :: "fsop \<Rightarrow> bool"
  requests :: "string list"

text \<open>The server answers a URL with a body or with a transport error.\<close>

type_synonym remote = "string \<Rightarrow> error + body"

definition lookup :: "(path \<times> node) list \<Rightarrow> path \<Rightarrow> node option" where
  "lookup t p = (if p = [] then Some (Directory 0) else map_of t p)"

definition put :: "(path \<times> node) list \<Rightarrow> path \<Rightarrow> node \<Rightarrow> (path \<times> node) list" where
  "put t p n = (p, n) # filter (\<lambda>(q, m). q \<noteq> p) t"

definition prune :: "(path \<times> node) list \<Rightarrow> path \<Rightarrow> (path \<times> node) list" where
  "prune t p = filter (\<lambda>(q, m). \<not> prefix p q) t"

definition childNames :: "(path \<times> node) list \<Rightarrow> path \<Rightarrow> string list" where
  "childNames t p = sort (remdups (map last (filter (\<lambda>q. q \<noteq> [] \<and> butlast q = p) (map fst t))))"

text \<open>
  \<open>os.Stat\<close>. The result \<open>Inr None\<close> stands for an error that satisfies
  \<open>os.IsNotExist\<close>, which every caller in the program treats as "no file info";
  \<open>Inl\<close> carries every other error.
\<close>

definition Stat :: "path \<Rightarrow> world \<Rightarrow> (error + node option) \<times> world" where
  "Stat p w =
     (if broken w (OpStat p) then (Inl EIO, w)
      else if list_ex (\<lambda>q. case lookup (fs w) q of Some (Regular c t) \<Rightarrow> True | _ \<Rightarrow> False)
                (butlast (prefixes p)) then (Inl ENOTDIR, w)
      else (Inr (lookup (fs w) p), w))"

text \<open>\<open>os.MkdirAll\<close>: every missing segment is created, from the root downwards.\<close>

fun mkdirs :: "path list \<Rightarrow> world \<Rightarrow> (error + unit) \<times> world" where
  "mkdirs [] w = (Inr (), w)"
| "mkdirs (q # qs) w =
     (case lookup (fs w) q of
        Some (Regular c t) \<Rightarrow> (Inl ENOTDIR, w)
      | Some (Directory t) \<Rightarrow> mkdirs qs w
      | None \<Rightarrow> mkdirs qs (w\<lparr>fs := put (fs w) q (Directory (now w))\<rparr>))"

definition MkdirAll :: "path \<Rightarrow> world \<Rightarrow> (error + unit) \<times> world" where
  "MkdirAll p w =
     (if broken w (OpMkdirAll p) then (Inl EIO, w) else mkdirs (tl (prefixes p)) w)"

text \<open>
  \<open>os.Create\<close> opens with \<open>O_CREATE|O_TRUNC\<close>: the file is empty afterwards and its
  modification time is the wall clock, also when it existed before.
\<close>

definition Create :: "path \<Rightarrow> world \<Rightarrow> (error + unit) \<times> world" where
  "Create p w =
     (if broken w (OpCreate p) then (Inl EIO, w)
      else case lookup (fs w) p of
        Some (Directory t) \<Rightarrow> (Inl EISDIR, w)
      | _ \<Rightarrow>
        (case lookup (fs w) (butlast p) of
           None \<Rightarrow> (Inl ENOENT, w)
         | Some (Regular c t) \<Rightarrow> (Inl ENOTDIR, w)
         | Some (Directory t) \<Rightarrow>
             (Inr (), w\<lparr>fs := put (fs w) p (Regular (Raw []) (now w))\<rparr>)))"

text \<open>\<open>nf.Write(body)\<close> on the file just opened at path \<open>p\<close>.\<close>

definition Write :: "path \<Rightarrow> body \<Rightarrow> world \<Rightarrow> (error + unit) \<times> world" where
  "Write p b w =
     (if broken w (OpWrite p) then (Inl EIO, w)
      else case lookup (fs w) p of
        Some (Regular c t) \<Rightarrow> (Inr (), w\<lparr>fs := put (fs w) p (Regular b (now w))\<rparr>)
      | _ \<Rightarrow> (Inl EIO, w))"

definition Chtimes :: "path \<Rightarrow> localTime \<Rightarrow> world \<Rightarrow> (error + unit) \<times> world" where
  "Chtimes p t w =
     (if broken w (OpChtimes p) then (Inl EPERM, w)
      else case lookup (fs w) p of
        None \<Rightarrow> (Inl ENOENT, w)
      | Some (Regular c t0) \<Rightarrow> (Inr (), w\<lparr>fs := put (fs w) p (Regular c t)\<rparr>)
      | Some (Directory t0) \<Rightarrow> (Inr (), w\<lparr>fs := put (fs w) p (Directory t)\<rparr>))"

text \<open>\<open>ioutil.ReadDir\<close>: the immediate children, sorted by name, each with its file info.\<close>

definition ReadDir :: "path \<Rightarrow> world \<Rightarrow> (error + (string \<times> node) list) \<times> world" where
  "ReadDir p w =
     (if broken w (OpReadDir p) then (Inl EIO, w)
      else case lookup (fs w) p of
        None \<Rightarrow> (Inl ENOENT, w)
      | Some (Regular c t) \<Rightarrow> (Inl ENOTDIR, w)
      | Some (Directory t) \<Rightarrow>
          (Inr (concat (map (\<lambda>n. case lookup (fs w) (p @ [n]) of
                                    None \<Rightarrow> [] | Some nd \<Rightarrow> [(n, nd)])
                            (childNames (fs w) p))), w))"

text \<open>\<open>os.RemoveAll\<close>: the path and everything below it; no error when it is absent.\<close>

definition RemoveAll :: "path \<Rightarrow> world \<Rightarrow> (error + unit) \<times> world" where
  "RemoveAll p w =
     (if broken w (OpRemoveAll p) then (Inl EIO, w)
      else (Inr (), w\<lparr>fs := prune (fs w) p\<rparr>))"

text \<open>
  \<open>download\<close>: one GET request. The duration it also returns is used for log output
  only and is left out, as are the \<open>verbose\<close> flag and all logging.
\<close>

definition download :: "remote \<Rightarrow> string \<Rightarrow> world \<Rightarrow> (error + body) \<times> world" where
  "download srv url w = (srv url, w\<lparr>requests := requests w @ [url]\<rparr>)"

section \<open>The remote listing fetcher\<close>

text \<open>
  \<open>json.Unmarshal(body, &fl)\<close>. Package \<open>encoding/json\<close> stores into the exported
  fields of a struct only: the members \<open>dir\<close> and \<open>files\<close> go to \<open>Dir\<close> and
  \<open>Files\<close>, and the member \<open>next\<close> finds no exported field, so that \<open>fl.next\<close>
  keeps the zero value of the freshly declared variable.
\<close>

fun json_Unmarshal :: "body \<Rightarrow> error + filelist" where
  "json_Unmarshal (JSON j) = Inr \<lparr>Dir = json_dir j, Files = json_files j, next' = 0\<rparr>"
| "json_Unmarshal (Raw s) = Inl SyntaxError"

text \<open>The comparison closure handed to \<open>sort.SliceStable\<close>.\<close>

definition lessFiles :: "file' \<Rightarrow> file' \<Rightarrow> bool" where
  "lessFiles a b =
     (if Type a = Type b then Name a < Name b else Type a = typeDirectory)"

text \<open>
  \<open>sort.SliceStable\<close> is the insertion sort of package \<open>sort\<close>: each element in turn
  moves left for as long as it is less than its left neighbour. \<open>sink\<close> works on the
  sorted part in reverse. (On more than twenty elements the package sorts blocks this way
  and merges them, with the same result whenever the comparison is a strict weak order.)
\<close>

fun sink :: "('a \<Rightarrow> 'a \<Rightarrow> bool) \<Rightarrow> 'a \<Rightarrow> 'a list \<Rightarrow> 'a list" where
  "sink lt x [] = [x]"
| "sink lt x (y # ys) = (if lt x y then y # sink lt x ys else x # y # ys)"

definition SliceStable :: "('a \<Rightarrow> 'a \<Rightarrow> bool) \<Rightarrow> 'a list \<Rightarrow> 'a list" where
  "SliceStable lt xs = rev (foldl (\<lambda>acc x. sink lt x acc) [] xs)"

text \<open>
  \<open>getFileList\<close>. The URL is built from \<open>baseURL\<close> and \<open>dir\<close> alone; the parameter
  \<open>first\<close> is passed to the recursive call and used nowhere else. The function is
  recursive on what the server answers, so a run that never ends is the value \<open>None\<close>.
\<close>

partial_function (option) getFileList ::
  "remote \<Rightarrow> string \<Rightarrow> string \<Rightarrow> 64 word \<Rightarrow> world \<Rightarrow> ((error + filelist) \<times> world) option"
where
  "getFileList srv baseURL dir first w =
     (case download srv (baseURL @ fileListURL @ dir) w of
        (Inl e, w1) \<Rightarrow> Some (Inl e, w1)
      | (Inr b, w1) \<Rightarrow>
        (case json_Unmarshal b of
           Inl e \<Rightarrow> Some (Inl e, w1)
         | Inr fl \<Rightarrow>
           (if next' fl > 0 then
              Option.bind (getFileList srv baseURL dir (next' fl) w1)
                (\<lambda>r. case r of
                   (Inl e, w2) \<Rightarrow> Some (Inl e, w2)
                 | (Inr moreFiles, w2) \<Rightarrow>
                     Some (Inr (fl\<lparr>Files := SliceStable lessFiles
                                   (Files fl @ Files moreFiles)\<rparr>), w2))
            else Some (Inr (fl\<lparr>Files := SliceStable lessFiles (Files fl)\<rparr>), w1))))"

declare getFileList.simps [code]

section \<open>The local mirror updater\<close>

text \<open>\<open>url.QueryEscape\<close>: unreserved bytes stay, a space becomes \<open>+\<close>, every other
  byte becomes \<open>%XX\<close> in upper-case hexadecimal.\<close>

definition unreserved :: "char \<Rightarrow> bool" where
  "unreserved c \<longleftrightarrow>
     c \<in> set ''ABCDEFGHIJKLMNOPQRSTUVWXYZabcdefghijklmnopqrstuvwxyz0123456789-_.~''"

definition upperhex :: string where
  "upperhex = ''0123456789ABCDEF''"

definition escapeByte :: "char \<Rightarrow> string" where
  "escapeByte c =
     (if unreserved c then [c]
      else if c = CHR '' '' then ''+''
      else [CHR ''%'', upperhex ! ((of_char c :: nat) div 16), upperhex ! ((of_char c :: nat) mod 16)])"

definition QueryEscape :: "string \<Rightarrow> string" where
  "QueryEscape s = concat (map escapeByte s)"

text \<open>
  \<open>ensureOutDirExists\<close>: the directory is created when \<open>os.Stat\<close> found nothing, and
  the marker file is created in any case.
\<close>

definition ensureOutDirExists :: "path \<Rightarrow> world \<Rightarrow> (error + unit) \<times> world" where
  "ensureOutDirExists outDir w =
     (case Stat outDir w of
        (Inl e, w1) \<Rightarrow> (Inl e, w1)
      | (Inr fi, w1) \<Rightarrow>
        (case (if fi = None then MkdirAll outDir w1 else (Inr (), w1)) of
           (Inl e, w2) \<Rightarrow> (Inl e, w2)
         | (Inr u, w2) \<Rightarrow>
           (case Create (outDir @ [dirMarker]) w2 of
              (Inl e, w3) \<Rightarrow> (Inl e, w3)
            | (Inr u', w3) \<Rightarrow> (Inr (), w3))))"

text \<open>
  The body of the loop of \<open>updateLocalFiles\<close> for one entry of the listing. \<open>Inr ()\<close>
  is the end of an iteration, which the loop follows with the next entry; \<open>Inl e\<close> is
  \<open>return err\<close>. The value that \<open>os.Chtimes\<close> returns is dropped, as in the source.
\<close>

definition updateFile ::
  "remote \<Rightarrow> string \<Rightarrow> string \<Rightarrow> path \<Rightarrow> excludes \<Rightarrow> file' \<Rightarrow> world \<Rightarrow> (error + unit) \<times> world"
where
  "updateFile srv baseURL dir outDir exs f w =
     (if Type f = typeDirectory then (Inr (), w)
      else let remoteFilename = dir @ ''/'' @ Name f in
        if excludes_Contains exs remoteFilename then (Inr (), w)
        else let fileName = outDir @ [Name f] in
          case Stat fileName w of
            (Inl e, w1) \<Rightarrow> (Inl e, w1)
          | (Inr fi, w1) \<Rightarrow>
            (if (case fi of None \<Rightarrow> True | Some i \<Rightarrow> ModTime i < Date f) then
               (case download srv (baseURL @ fileDownloadURL @ QueryEscape remoteFilename) w1 of
                  (Inl e, w2) \<Rightarrow> (Inl e, w2)
                | (Inr b, w2) \<Rightarrow>
                  (case Create fileName w2 of
                     (Inl e, w3) \<Rightarrow> (Inl e, w3)
                   | (Inr u, w3) \<Rightarrow>
                     (case Write fileName b w3 of
                        (Inl e, w4) \<Rightarrow> (Inl e, w4)
                      | (Inr u', w4) \<Rightarrow> (Inr (), snd (Chtimes fileName (Date f) w4)))))
             else (Inr (), w1)))"

fun updateLoop ::
  "remote \<Rightarrow> string \<Rightarrow> string \<Rightarrow> path \<Rightarrow> excludes \<Rightarrow> file' list \<Rightarrow> world \<Rightarrow> (error + unit) \<times> world"
where
  "updateLoop srv baseURL dir outDir exs [] w = (Inr (), w)"
| "updateLoop srv baseURL dir outDir exs (f # files) w =
     (case updateFile srv baseURL dir outDir exs f w of
        (Inl e, w1) \<Rightarrow> (Inl e, w1)
      | (Inr u, w1) \<Rightarrow> updateLoop srv baseURL dir outDir exs files w1)"

definition updateLocalFiles ::
  "remote \<Rightarrow> string \<Rightarrow> filelist \<Rightarrow> path \<Rightarrow> excludes \<Rightarrow> bool \<Rightarrow> world \<Rightarrow> (error + unit) \<times> world"
where
  "updateLocalFiles srv baseURL fl outDir exs removeLocal w =
     (case ensureOutDirExists outDir w of
        (Inl e, w1) \<Rightarrow> (Inl e, w1)
      | (Inr u, w1) \<Rightarrow> updateLoop srv baseURL (Dir fl) outDir exs (Files fl) w1)"

section \<open>The stale file reclaimer\<close>

text \<open>
  \<open>isManagedDirectory\<close>: false for everything that is not a directory, and false when
  the marker inside it is missing or cannot be examined.
\<close>

definition isManagedDirectory :: "path \<Rightarrow> string \<times> node \<Rightarrow> world \<Rightarrow> bool" where
  "isManagedDirectory basePath f w =
     (if \<not> IsDir (snd f) then False
      else let markerFile = basePath @ [fst f, dirMarker] in
        case fst (Stat markerFile w) of
          Inl e \<Rightarrow> False
        | Inr None \<Rightarrow> False
        | Inr (Some fi) \<Rightarrow> True)"

fun removeLoop ::
  "string set \<Rightarrow> path \<Rightarrow> (string \<times> node) list \<Rightarrow> world \<Rightarrow> (error + unit) \<times> world"
where
  "removeLoop existingFiles outDir [] w = (Inr (), w)"
| "removeLoop existingFiles outDir (f # files) w =
     (if fst f \<notin> existingFiles then
        (if \<not> isManagedDirectory outDir f w \<or> fst f = dirMarker
         then removeLoop existingFiles outDir files w
         else case RemoveAll (outDir @ [fst f]) w of
                (Inl e, w1) \<Rightarrow> (Inl e, w1)
              | (Inr u, w1) \<Rightarrow> removeLoop existingFiles outDir files w1)
      else removeLoop existingFiles outDir files w)"

definition removeDeletedFiles :: "filelist \<Rightarrow> path \<Rightarrow> world \<Rightarrow> (error + unit) \<times> world" where
  "removeDeletedFiles fl outDir w =
     (let existingFiles = set (map Name (Files fl)) in
      case ReadDir outDir w of
        (Inl e, w1) \<Rightarrow> (Inl e, w1)
      | (Inr files, w1) \<Rightarrow> removeLoop existingFiles outDir files w1)"

section \<open>The orchestrator\<close>

text \<open>
  \<open>syncFolder\<close> recurses as deep as the remote tree is. The first argument bounds the
  depth of the recursion; \<open>None\<close> is the run that does not return within the bound.
\<close>

fun syncFolder ::
  "nat \<Rightarrow> remote \<Rightarrow> string \<Rightarrow> string \<Rightarrow> path \<Rightarrow> excludes \<Rightarrow> bool \<Rightarrow> world
     \<Rightarrow> ((error + unit) \<times> world) option"
and syncSubfolders ::
  "nat \<Rightarrow> remote \<Rightarrow> string \<Rightarrow> string \<Rightarrow> path \<Rightarrow> excludes \<Rightarrow> bool \<Rightarrow> file' list \<Rightarrow> world
     \<Rightarrow> ((error + unit) \<times> world) option"
where
  "syncFolder 0 srv address folder outDir exs removeLocal w = None"
| "syncFolder (Suc k) srv address folder outDir exs removeLocal w =
     (if excludes_Contains exs folder then Some (Inr (), w)
      else case getFileList srv address (QueryEscape folder) 0 w of
        None \<Rightarrow> None
      | Some (Inl e, w1) \<Rightarrow> Some (Inl e, w1)
      | Some (Inr fl, w1) \<Rightarrow>
        (case updateLocalFiles srv address fl outDir exs removeLocal w1 of
           (Inl e, w2) \<Rightarrow> Some (Inl e, w2)
         | (Inr u, w2) \<Rightarrow>
           (case (if removeLocal then removeDeletedFiles fl outDir w2 else (Inr (), w2)) of
              (Inl e, w3) \<Rightarrow> Some (Inl e, w3)
            | (Inr u', w3) \<Rightarrow>
                syncSubfolders k srv address (Dir fl) outDir exs removeLocal (Files fl) w3)))"
| "syncSubfolders k srv address dir outDir exs removeLocal [] w = Some (Inr (), w)"
| "syncSubfolders k srv address dir outDir exs removeLocal (f # files) w =
     (if Type f \<noteq> typeDirectory
      then syncSubfolders k srv address dir outDir exs removeLocal files w
      else case syncFolder k srv address (dir @ ''/'' @ Name f) (outDir @ [Name f])
                  exs removeLocal w of
        None \<Rightarrow> None
      | Some (Inl e, w1) \<Rightarrow> Some (Inl e, w1)
      | Some (Inr u, w1) \<Rightarrow>
          syncSubfolders k srv address dir outDir exs removeLocal files w1)"

section \<open>Well-formed entries and example inputs\<close>

text \<open>The protocol knows two kinds of entry.\<close>

definition wellTyped :: "file' \<Rightarrow> bool" where
  "wellTyped e \<longleftrightarrow> Type e = typeDirectory \<or> Type e = typeFile"

text \<open>A world with an empty tree in which no operation is refused.\<close>

definition idle :: world where
  "idle = \<lparr>fs = [], now = 0, broken = (\<lambda>op. False), requests = []\<rparr>"

text \<open>
  A server that serves the directory \<open>0:/sys\<close> in two pages: the first page carries
  the cursor \<open>next = 1\<close>, and the second page is served for \<open>first=1\<close>.
\<close>

definition pageOne :: rr_filelist where
  "pageOne = \<lparr>json_dir = ''0:/sys'',
     json_files = [\<lparr>Type = ''f'', Name = ''b.txt'', Size = 7, Date = 50\<rparr>],
     json_next = 1\<rparr>"

definition pageTwo :: rr_filelist where
  "pageTwo = \<lparr>json_dir = ''0:/sys'',
     json_files = [\<lparr>Type = ''f'', Name = ''a.txt'', Size = 3, Date = 100\<rparr>],
     json_next = 0\<rparr>"

definition pagedServer :: remote where
  "pagedServer url =
     (if url = ''http://duet/rr_filelist?dir=0%3A%2Fsys'' then Inr (JSON pageOne)
      else if url = ''http://duet/rr_filelist?dir=0%3A%2Fsys&first=1'' then Inr (JSON pageTwo)
      else Inl TransportError)"

text \<open>A server that answers every request with one unsorted page of four entries.\<close>

definition mixedPage :: rr_filelist where
  "mixedPage = \<lparr>json_dir = ''0:/sys'',
     json_files = [\<lparr>Type = ''f'', Name = ''b.txt'', Size = 7, Date = 50\<rparr>,
                   \<lparr>Type = ''d'', Name = ''sub'', Size = 0, Date = 10\<rparr>,
                   \<lparr>Type = ''f'', Name = ''a.txt'', Size = 3, Date = 100\<rparr>,
                   \<lparr>Type = ''f'', Name = ''a.txt'', Size = 4, Date = 120\<rparr>],
     json_next = 0\<rparr>"

definition mixedServer :: remote where
  "mixedServer url = Inr (JSON mixedPage)"

text \<open>
  A local mirror of \<open>0:/sys\<close> below \<open>out\<close>: the marker, the file \<open>a.txt\<close>, the managed
  directories \<open>sub\<close> and \<open>old\<close>, and a directory \<open>notes\<close> that the tool did not create.
\<close>

definition mirrored :: world where
  "mirrored = \<lparr>fs =
      [([''out''], Directory 0),
       ([''out'', ''.duetbackup''], Regular (Raw []) 0),
       ([''out'', ''a.txt''], Regular (Raw ''A'') 100),
       ([''out'', ''sub''], Directory 0),
       ([''out'', ''sub'', ''.duetbackup''], Regular (Raw []) 0),
       ([''out'', ''sub'', ''b.txt''], Regular (Raw ''B'') 50),
       ([''out'', ''notes''], Directory 0),
       ([''out'', ''notes'', ''todo.txt''], Regular (Raw ''T'') 7),
       ([''out'', ''old''], Directory 0),
       ([''out'', ''old'', ''.duetbackup''], Regular (Raw []) 0),
       ([''out'', ''old'', ''c.txt''], Regular (Raw ''C'') 20)],
     now = 200, broken = (\<lambda>op. False), requests = []\<rparr>"

text \<open>The listing of \<open>0:/sys\<close> after \<open>a.txt\<close> and \<open>old\<close> have been deleted remotely.\<close>

definition subOnly :: filelist where
  "subOnly = \<lparr>Dir = ''0:/sys'',
     Files = [\<lparr>Type = ''d'', Name = ''sub'', Size = 0, Date = 10\<rparr>], next' = 0\<rparr>"

text \<open>A server that answers every request with the same four bytes.\<close>

definition fileServer :: remote where
  "fileServer url = Inr (Raw ''data'')"

text \<open>A listing of \<open>0:/sys\<close> with two files.\<close>

definition twoFiles :: filelist where
  "twoFiles = \<lparr>Dir = ''0:/sys'',
     Files = [\<lparr>Type = ''f'', Name = ''a.txt'', Size = 4, Date = 100\<rparr>,
              \<lparr>Type = ''f'', Name = ''b.txt'', Size = 4, Date = 50\<rparr>],
     next' = 0\<rparr>"

text \<open>
  A world with an empty tree at wall-clock time 500 in which the operating system refuses
  to set the times of \<open>out/a.txt\<close>, as it does for a file of another owner.
\<close>

definition chtimesRefused :: world where
  "chtimesRefused = \<lparr>fs = [], now = 500,
     broken = (\<lambda>op. op = OpChtimes [''out'', ''a.txt'']), requests = []\<rparr>"

text \<open>
  A listing in which the remote directory holds a file with the name of the marker,
  dated later than the local clock of \<open>idle\<close> shows.
\<close>

definition markerListing :: filelist where
  "markerListing = \<lparr>Dir = ''0:/sys'',
     Files = [\<lparr>Type = ''f'', Name = ''.duetbackup'', Size = 4, Date = 100\<rparr>],
     next' = 0\<rparr>"

text \<open>
  The device of the end-to-end scenario: \<open>0:/sys\<close> holds \<open>a.txt\<close>, dated 100, and the
  directory \<open>sub\<close> with \<open>b.txt\<close>, dated 50.
\<close>

definition duet :: remote where
  "duet url =
     (if url = ''http://duet/rr_filelist?dir=0%3A%2Fsys'' then
        Inr (JSON \<lparr>json_dir = ''0:/sys'',
          json_files = [\<lparr>Type = ''f'', Name = ''a.txt'', Size = 1, Date = 100\<rparr>,
                        \<lparr>Type = ''d'', Name = ''sub'', Size = 0, Date = 10\<rparr>],
          json_next = 0\<rparr>)
      else if url = ''http://duet/rr_filelist?dir=0%3A%2Fsys%2Fsub'' then
        Inr (JSON \<lparr>json_dir = ''0:/sys/sub'',
          json_files = [\<lparr>Type = ''f'', Name = ''b.txt'', Size = 1, Date = 50\<rparr>],
          json_next = 0\<rparr>)
      else if url = ''http://duet/rr_download?name=0%3A%2Fsys%2Fa.txt'' then Inr (Raw ''A'')
      else if url = ''http://duet/rr_download?name=0%3A%2Fsys%2Fsub%2Fb.txt'' then Inr (Raw ''B'')
      else Inl TransportError)"

text \<open>The mirror of that device as a run at time 200 leaves it, seen at time 300.\<close>

definition synced :: world where
  "synced = \<lparr>fs =
      [([''out'', ''sub'', ''b.txt''], Regular (Raw ''B'') 50),
       ([''out'', ''sub'', ''.duetbackup''], Regular (Raw []) 200),
       ([''out'', ''sub''], Directory 200),
       ([''out'', ''a.txt''], Regular (Raw ''A'') 100),
       ([''out'', ''.duetbackup''], Regular (Raw []) 200),
       ([''out''], Directory 200)],
     now = 300, broken = (\<lambda>op. False), requests = []\<rparr>"

section \<open>Properties of the exclude matcher\<close>

lemma containsLoop_iff:
  "containsLoop xs p \<longleftrightarrow> (\<exists>x\<in>set xs. prefix x p)"
  by (induction xs) (auto simp: HasPrefix_def)

lemma excls_foldl_Set:
  "excls (foldl excludes_Set e vs) = excls e @ map cleanPath vs"
  by (induction vs arbitrary: e) (simp_all add: excludes_Set_def)

text \<open>A cleaned path has no two slashes in a row and does not end in a slash.\<close>

lemma replaceMultiSlash_Cons: "\<exists>r. replaceMultiSlash (a # cs) = a # r"
proof (induction cs arbitrary: a)
  case Nil
  then show ?case by simp
next
  case (Cons b cs)
  then show ?case by (cases "a = CHR ''/'' \<and> b = CHR ''/''") auto
qed

lemma replaceMultiSlash_no_double: "\<not> sublist ''//'' (replaceMultiSlash s)"
proof (induction s rule: replaceMultiSlash.induct)
  case (1 a b cs)
  show ?case
  proof (cases "a = CHR ''/'' \<and> b = CHR ''/''")
    case True
    then show ?thesis using 1 by simp
  next
    case False
    obtain r where r: "replaceMultiSlash (b # cs) = b # r"
      using replaceMultiSlash_Cons by blast
    have "\<not> sublist ''//'' (replaceMultiSlash (b # cs))" using 1 False by simp
    moreover have "\<not> prefix ''//'' (a # replaceMultiSlash (b # cs))"
      using False r by auto
    moreover have "replaceMultiSlash (a # b # cs) = a # replaceMultiSlash (b # cs)"
      using False by simp
    ultimately show ?thesis by (simp only: sublist_Cons_right) simp
  qed
qed (auto simp: sublist_Cons_right)

lemma cleanPath_no_double_slash: "\<not> sublist ''//'' (cleanPath s)"
proof -
  have "sublist (cleanPath s) (replaceMultiSlash s)"
    by (auto simp: cleanPath_def TrimSuffix_def suffix_def intro: prefix_imp_sublist)
  then show ?thesis
    using replaceMultiSlash_no_double [of s] sublist_order.order.trans by blast
qed

lemma cleanPath_no_trailing_slash: "\<not> suffix ''/'' (cleanPath s)"
proof (cases "suffix ''/'' (replaceMultiSlash s)")
  case False
  then show ?thesis by (simp add: cleanPath_def TrimSuffix_def)
next
  case True
  then obtain zs where zs: "replaceMultiSlash s = zs @ ''/''" by (auto simp: suffix_def)
  then have c: "cleanPath s = zs" using True by (simp add: cleanPath_def TrimSuffix_def)
  show ?thesis
  proof
    assume "suffix ''/'' (cleanPath s)"
    then obtain ys where "zs = ys @ ''/''" using c by (auto simp: suffix_def)
    then have "replaceMultiSlash s = ys @ ''//'' @ []" using zs by simp
    then have "sublist ''//'' (replaceMultiSlash s)" unfolding sublist_def by blast
    then show False using replaceMultiSlash_no_double by blast
  qed
qed

text \<open>
  Claim C5 as stated fails: \<open>Contains\<close> compares the path it is given, without cleaning
  it. The exclude \<open>0:/sys/www\<close> is a prefix of the cleaned form of
  \<open>0:/sys//www/index.html\<close>, yet \<open>Contains\<close> answers false for that path.
\<close>

theorem Contains_ignores_unclean_path:
  "\<not> excludes_Contains (excludes_Set \<lparr>excls = []\<rparr> ''0:/sys/www'') ''0:/sys//www/index.html''
   \<and> prefix (cleanPath ''0:/sys/www'') (cleanPath ''0:/sys//www/index.html'')"
  by (simp add: excludes_Contains_def excludes_Set_def HasPrefix_def cleanPath_def
        TrimSuffix_def suffix_def)

text \<open>
  Claim C5, amended: for every path \<open>p\<close> and every exclude set built by \<open>Set\<close> from
  the values \<open>vs\<close>, \<open>Contains p\<close> is true iff the cleaned form of some value is a
  literal string prefix of \<open>p\<close> exactly as it is passed. The match is not aware of
  segments: the exclude \<open>/sys\<close> matches \<open>/system\<close>.
\<close>

theorem Contains_iff_cleaned_prefix:
  "(excludes_Contains (foldl excludes_Set \<lparr>excls = []\<rparr> vs) p
      \<longleftrightarrow> (\<exists>v\<in>set vs. prefix (cleanPath v) p))
   \<and> excludes_Contains (excludes_Set \<lparr>excls = []\<rparr> ''/sys'') ''/system''"
proof
  show "excludes_Contains (foldl excludes_Set \<lparr>excls = []\<rparr> vs) p
      \<longleftrightarrow> (\<exists>v\<in>set vs. prefix (cleanPath v) p)"
    by (simp add: excludes_Contains_def containsLoop_iff excls_foldl_Set)
  show "excludes_Contains (excludes_Set \<lparr>excls = []\<rparr> ''/sys'') ''/system''"
    by (simp add: excludes_Contains_def excludes_Set_def HasPrefix_def cleanPath_def
          TrimSuffix_def suffix_def)
qed

theorem Contains_iff_cleaned_prefix_witness:
  "excludes_Contains (foldl excludes_Set \<lparr>excls = []\<rparr> [''0:/sys/www/'', ''//sys'']) ''/system''"
  using Contains_iff_cleaned_prefix [of "[''0:/sys/www/'', ''//sys'']" "''/system''"]
  by (simp add: cleanPath_def TrimSuffix_def suffix_def)

section \<open>Properties of the sort\<close>

lemma set_sink: "set (sink lt x ys) = insert x (set ys)"
  by (induction ys) auto

lemma length_sink: "length (sink lt x ys) = Suc (length ys)"
  by (induction ys) auto

text \<open>Sinking \<open>x\<close> changes no sublist of elements that are pairwise not less.\<close>

lemma filter_sink:
  "\<forall>y\<in>set ys. P x \<and> P y \<longrightarrow> \<not> lt x y \<Longrightarrow>
   filter P (sink lt x ys) = (if P x then x # filter P ys else filter P ys)"
  by (induction ys) auto

lemma sorted_sink:
  assumes "sorted_wrt (\<lambda>a b. \<not> lt a b) ys"
    and asym: "\<forall>y\<in>set ys. lt x y \<longrightarrow> \<not> lt y x"
    and ntr: "\<forall>y\<in>set ys. \<forall>z\<in>set ys. lt x z \<longrightarrow> lt x y \<or> lt y z"
  shows "sorted_wrt (\<lambda>a b. \<not> lt a b) (sink lt x ys)"
  using assms
proof (induction ys)
  case Nil
  then show ?case by simp
next
  case (Cons y ys)
  show ?case
  proof (cases "lt x y")
    case True
    have "sorted_wrt (\<lambda>a b. \<not> lt a b) (sink lt x ys)"
      using Cons by simp
    moreover have "\<not> lt y x" using Cons.prems(2) True by simp
    ultimately show ?thesis using True Cons.prems(1) by (simp add: set_sink)
  next
    case False
    have "\<forall>z\<in>set ys. \<not> lt x z"
    proof
      fix z assume z: "z \<in> set ys"
      have "\<not> lt y z" using Cons.prems(1) z by simp
      then show "\<not> lt x z" using Cons.prems(3) False z by auto
    qed
    then show ?thesis using False Cons.prems(1) by simp
  qed
qed

text \<open>On entries of the two kinds of the protocol, \<open>lessFiles\<close> is a strict weak order.\<close>

lemma lessFiles_asym: "lessFiles a b \<Longrightarrow> \<not> lessFiles b a"
  by (auto simp: lessFiles_def split: if_splits)

lemma lessFiles_negtrans:
  "wellTyped a \<Longrightarrow> wellTyped b \<Longrightarrow> wellTyped c \<Longrightarrow> lessFiles a c
     \<Longrightarrow> lessFiles a b \<or> lessFiles b c"
  by (auto simp: lessFiles_def wellTyped_def typeDirectory_def typeFile_def split: if_splits)

lemma foldl_sink_set:
  "set (foldl (\<lambda>acc x. sink lt x acc) acc xs) = set acc \<union> set xs"
  by (induction xs arbitrary: acc) (auto simp: set_sink)

lemma foldl_sink_length:
  "length (foldl (\<lambda>acc x. sink lt x acc) acc xs) = length acc + length xs"
  by (induction xs arbitrary: acc) (auto simp: length_sink)

lemma foldl_sink_filter:
  "\<forall>a b. P a \<and> P b \<longrightarrow> \<not> lt a b \<Longrightarrow>
   filter P (foldl (\<lambda>acc x. sink lt x acc) acc xs) = rev (filter P xs) @ filter P acc"
  by (induction xs arbitrary: acc) (auto simp: filter_sink)

lemma foldl_sink_sorted:
  "sorted_wrt (\<lambda>a b. \<not> lessFiles a b) acc \<Longrightarrow> \<forall>e\<in>set acc \<union> set xs. wellTyped e \<Longrightarrow>
   sorted_wrt (\<lambda>a b. \<not> lessFiles a b) (foldl (\<lambda>acc x. sink lessFiles x acc) acc xs)"
proof (induction xs arbitrary: acc)
  case Nil
  then show ?case by simp
next
  case (Cons x xs)
  have "sorted_wrt (\<lambda>a b. \<not> lessFiles a b) (sink lessFiles x acc)"
  proof (rule sorted_sink)
    show "sorted_wrt (\<lambda>a b. \<not> lessFiles a b) acc" by (rule Cons.prems(1))
    show "\<forall>y\<in>set acc. lessFiles x y \<longrightarrow> \<not> lessFiles y x"
      using lessFiles_asym by blast
    show "\<forall>y\<in>set acc. \<forall>z\<in>set acc. lessFiles x z \<longrightarrow> lessFiles x y \<or> lessFiles y z"
      using lessFiles_negtrans Cons.prems(2) by auto
  qed
  moreover have "\<forall>e\<in>set (sink lessFiles x acc) \<union> set xs. wellTyped e"
    using Cons.prems(2) by (auto simp: set_sink)
  ultimately show ?case using Cons.IH by simp
qed

lemma SliceStable_sorted:
  "\<forall>e\<in>set xs. wellTyped e \<Longrightarrow> sorted_wrt (\<lambda>a b. \<not> lessFiles b a) (SliceStable lessFiles xs)"
  using foldl_sink_sorted [of "[]" xs]
  by (simp add: SliceStable_def sorted_wrt_rev)

lemma SliceStable_stable:
  "\<forall>a b. P a \<and> P b \<longrightarrow> \<not> lt a b \<Longrightarrow> filter P (SliceStable lt xs) = filter P xs"
  by (simp add: SliceStable_def rev_filter [symmetric] foldl_sink_filter)

lemma SliceStable_set: "set (SliceStable lt xs) = set xs"
  by (simp add: SliceStable_def foldl_sink_set)

lemma SliceStable_length: "length (SliceStable lt xs) = length xs"
  by (simp add: SliceStable_def foldl_sink_length)

section \<open>Properties of the fetcher\<close>

text \<open>
  Whatever the server answers, \<open>getFileList\<close> returns after one request: the unmarshalled
  \<open>next\<close> is zero, and the recursive call is never made.
\<close>

lemma getFileList_eq:
  "getFileList srv baseURL dir first w =
     (case srv (baseURL @ fileListURL @ dir) of
        Inl e \<Rightarrow> Some (Inl e, w\<lparr>requests := requests w @ [baseURL @ fileListURL @ dir]\<rparr>)
      | Inr (Raw s) \<Rightarrow>
          Some (Inl SyntaxError, w\<lparr>requests := requests w @ [baseURL @ fileListURL @ dir]\<rparr>)
      | Inr (JSON j) \<Rightarrow>
          Some (Inr \<lparr>Dir = json_dir j, Files = SliceStable lessFiles (json_files j), next' = 0\<rparr>,
                w\<lparr>requests := requests w @ [baseURL @ fileListURL @ dir]\<rparr>))"
proof (cases "srv (baseURL @ fileListURL @ dir)")
  case (Inl e)
  then show ?thesis by (subst getFileList.simps) (simp add: download_def)
next
  case (Inr b)
  then show ?thesis by (cases b; subst getFileList.simps) (simp_all add: download_def)
qed

text \<open>
  Claim C1 does not hold of the code. For the server that serves \<open>0:/sys\<close> in two
  pages, \<open>getFileList\<close> sends one request, without a \<open>first\<close> parameter, and returns
  the entries of the first page alone; the sorted concatenation of the two pages is a
  different sequence.
\<close>

theorem getFileList_returns_first_page_only:
  "getFileList pagedServer ''http://duet'' ''0%3A%2Fsys'' 0 idle =
     Some (Inr \<lparr>Dir = ''0:/sys'', Files = json_files pageOne, next' = 0\<rparr>,
           idle\<lparr>requests := [''http://duet/rr_filelist?dir=0%3A%2Fsys'']\<rparr>)
   \<and> SliceStable lessFiles (json_files pageOne @ json_files pageTwo) \<noteq> json_files pageOne"
  by (simp add: getFileList_eq pagedServer_def fileListURL_def pageOne_def pageTwo_def
        idle_def SliceStable_def lessFiles_def)

text \<open>
  Claim C6: when the server answers with a listing whose entries are directories and
  files, the sequence that \<open>getFileList\<close> returns has no file before a directory, has
  the names of entries of one kind in ascending order, and keeps the entries of equal
  kind and name in the order of arrival; it has as many entries as arrived.
\<close>

theorem getFileList_sorted_stable:
  assumes "srv (baseURL @ fileListURL @ dir) = Inr (JSON j)"
    and "\<forall>e\<in>set (json_files j). Type e = typeDirectory \<or> Type e = typeFile"
  shows "\<exists>fl w'. getFileList srv baseURL dir first w = Some (Inr fl, w')
     \<and> (\<forall>i k. i < k \<and> k < length (Files fl) \<longrightarrow>
            \<not> (Type (Files fl ! i) = typeFile \<and> Type (Files fl ! k) = typeDirectory)
          \<and> (Type (Files fl ! i) = Type (Files fl ! k)
               \<longrightarrow> Name (Files fl ! i) \<le> Name (Files fl ! k)))
     \<and> (\<forall>t n. filter (\<lambda>e. Type e = t \<and> Name e = n) (Files fl)
                = filter (\<lambda>e. Type e = t \<and> Name e = n) (json_files j))
     \<and> length (Files fl) = length (json_files j)"
proof -
  let ?ys = "SliceStable lessFiles (json_files j)"
  let ?fl = "\<lparr>Dir = json_dir j, Files = ?ys, next' = 0\<rparr>"
  let ?w = "w\<lparr>requests := requests w @ [baseURL @ fileListURL @ dir]\<rparr>"
  have run: "getFileList srv baseURL dir first w = Some (Inr ?fl, ?w)"
    using assms(1) by (simp add: getFileList_eq)
  have wt: "\<forall>e\<in>set (json_files j). wellTyped e"
    using assms(2) by (simp add: wellTyped_def)
  have sorted: "sorted_wrt (\<lambda>a b. \<not> lessFiles b a) ?ys"
    using wt by (rule SliceStable_sorted)
  have order: "\<not> (Type (?ys ! i) = typeFile \<and> Type (?ys ! k) = typeDirectory)
          \<and> (Type (?ys ! i) = Type (?ys ! k) \<longrightarrow> Name (?ys ! i) \<le> Name (?ys ! k))"
    if "i < k" "k < length ?ys" for i k
  proof -
    have "\<not> lessFiles (?ys ! k) (?ys ! i)"
      using sorted that by (simp add: sorted_wrt_iff_nth_less)
    then show ?thesis
      by (auto simp: lessFiles_def typeDirectory_def typeFile_def split: if_splits)
  qed
  have stable: "filter (\<lambda>e. Type e = t \<and> Name e = n) ?ys
                = filter (\<lambda>e. Type e = t \<and> Name e = n) (json_files j)" for t n
    by (rule SliceStable_stable) (simp add: lessFiles_def)
  show ?thesis
  proof (intro exI conjI)
    show "getFileList srv baseURL dir first w = Some (Inr ?fl, ?w)" by (rule run)
    show "\<forall>i k. i < k \<and> k < length (Files ?fl) \<longrightarrow>
            \<not> (Type (Files ?fl ! i) = typeFile \<and> Type (Files ?fl ! k) = typeDirectory)
          \<and> (Type (Files ?fl ! i) = Type (Files ?fl ! k)
               \<longrightarrow> Name (Files ?fl ! i) \<le> Name (Files ?fl ! k))"
      using order by auto
    show "\<forall>t n. filter (\<lambda>e. Type e = t \<and> Name e = n) (Files ?fl)
                = filter (\<lambda>e. Type e = t \<and> Name e = n) (json_files j)"
      using stable by simp
    show "length (Files ?fl) = length (json_files j)"
      by (simp add: SliceStable_length)
  qed
qed

theorem getFileList_sorted_stable_witness:
  "\<exists>fl w'. getFileList mixedServer ''http://duet'' ''0%3A%2Fsys'' 0 idle = Some (Inr fl, w')
     \<and> (\<forall>i k. i < k \<and> k < length (Files fl) \<longrightarrow>
            \<not> (Type (Files fl ! i) = typeFile \<and> Type (Files fl ! k) = typeDirectory)
          \<and> (Type (Files fl ! i) = Type (Files fl ! k)
               \<longrightarrow> Name (Files fl ! i) \<le> Name (Files fl ! k)))
     \<and> (\<forall>t n. filter (\<lambda>e. Type e = t \<and> Name e = n) (Files fl)
                = filter (\<lambda>e. Type e = t \<and> Name e = n) (json_files mixedPage))
     \<and> length (Files fl) = length (json_files mixedPage)"
  by (rule getFileList_sorted_stable)
     (simp_all add: mixedServer_def mixedPage_def typeDirectory_def typeFile_def)

lemma getFileList_mixed_example:
  "getFileList mixedServer ''http://duet'' ''0%3A%2Fsys'' 0 idle =
     Some (Inr \<lparr>Dir = ''0:/sys'',
             Files = [\<lparr>Type = ''d'', Name = ''sub'', Size = 0, Date = 10\<rparr>,
                      \<lparr>Type = ''f'', Name = ''a.txt'', Size = 3, Date = 100\<rparr>,
                      \<lparr>Type = ''f'', Name = ''a.txt'', Size = 4, Date = 120\<rparr>,
                      \<lparr>Type = ''f'', Name = ''b.txt'', Size = 7, Date = 50\<rparr>],
             next' = 0\<rparr>,
           idle\<lparr>requests := [''http://duet/rr_filelist?dir=0%3A%2Fsys'']\<rparr>)"
  by (simp add: getFileList_eq mixedServer_def mixedPage_def fileListURL_def idle_def
        SliceStable_def lessFiles_def typeDirectory_def)

section \<open>Properties of the file system operations\<close>

lemma map_of_filter_neq:
  "map_of (filter (\<lambda>(q, m). q \<noteq> p) t) q = (if q = p then None else map_of t q)"
  by (induction t) auto

lemma map_of_filter_prefix:
  "map_of (filter (\<lambda>(q, m). \<not> prefix p q) t) q = (if prefix p q then None else map_of t q)"
  by (induction t) auto

lemma lookup_root [simp]: "lookup t [] = Some (Directory 0)"
  by (simp add: lookup_def)

lemma lookup_put:
  "q \<noteq> [] \<Longrightarrow> lookup (put t p n) q = (if q = p then Some n else lookup t q)"
  by (simp add: lookup_def put_def map_of_filter_neq)

lemma lookup_prune:
  "lookup (prune t p) q = (if q \<noteq> [] \<and> prefix p q then None else lookup t q)"
  by (simp add: lookup_def prune_def map_of_filter_prefix)

text \<open>Stat reads the nodes on the way to the path and the refusals, nothing else.\<close>

lemma Stat_world [simp]: "snd (Stat p w) = w"
  by (simp add: Stat_def)

lemma Stat_cong:
  assumes "broken w' = broken w"
    and "\<forall>q. prefix q p \<longrightarrow> lookup (fs w') q = lookup (fs w) q"
  shows "fst (Stat p w') = fst (Stat p w)"
proof -
  have "\<forall>q\<in>set (butlast (prefixes p)). lookup (fs w') q = lookup (fs w) q"
    using assms(2) by (auto dest!: in_set_butlastD simp: in_set_prefixes)
  then have "list_ex (\<lambda>q. case lookup (fs w') q of Some (Regular c t) \<Rightarrow> True | _ \<Rightarrow> False) (butlast (prefixes p))
     = list_ex (\<lambda>q. case lookup (fs w) q of Some (Regular c t) \<Rightarrow> True | _ \<Rightarrow> False) (butlast (prefixes p))"
    by (simp add: list_ex_iff)
  then show ?thesis using assms by (simp add: Stat_def)
qed

lemma Stat_absent:
  "lookup (fs w) p = None \<Longrightarrow> fst (Stat p w) = Inr None \<or> (\<exists>e. fst (Stat p w) = Inl e)"
  by (simp add: Stat_def)

lemma isManagedDirectory_cong:
  assumes "broken w' = broken w"
    and "\<forall>q. prefix q (basePath @ [fst f, dirMarker]) \<longrightarrow> lookup (fs w') q = lookup (fs w) q"
  shows "isManagedDirectory basePath f w' = isManagedDirectory basePath f w"
  using Stat_cong [OF assms] by (simp add: isManagedDirectory_def)

lemma prefix_snoc_neq:
  "c \<noteq> d \<Longrightarrow> prefix (p @ [c]) q \<Longrightarrow> \<not> prefix (p @ [d]) q"
  by (auto simp: prefix_def)

lemma prefix_below_child:
  assumes "c \<noteq> d" "prefix q (p @ [c, m])"
  shows "\<not> prefix (p @ [d]) q"
  by (metis assms(1) assms(2) same_prefix_prefix Cons_prefix_Cons Nil_is_append_conv
      prefix_order.dual_order.trans)

lemma lookup_put_nonroot:
  "p \<noteq> [] \<Longrightarrow> lookup (put t p n) q = (if q = p then Some n else lookup t q)"
  by (cases "q = []") (auto simp: lookup_put)

lemma mkdirs_fields:
  "mkdirs qs w = (r, w') \<Longrightarrow> broken w' = broken w \<and> now w' = now w \<and> requests w' = requests w"
  by (induction qs arbitrary: w) (auto split: option.splits node.splits)

lemma mkdirs_success:
  assumes "mkdirs qs w = (Inr u, w')" "[] \<notin> set qs"
  shows "(\<forall>q\<in>set qs. \<exists>t. lookup (fs w') q = Some (Directory t))
    \<and> (\<forall>p. p \<notin> set qs \<longrightarrow> lookup (fs w') p = lookup (fs w) p)
    \<and> (\<forall>p t. lookup (fs w) p = Some (Directory t) \<longrightarrow> lookup (fs w') p = Some (Directory t))"
  using assms
proof (induction qs arbitrary: w)
  case Nil
  then show ?case by simp
next
  case (Cons q qs)
  show ?case
  proof (cases "lookup (fs w) q")
    case None
    let ?w1 = "w\<lparr>fs := put (fs w) q (Directory (now w))\<rparr>"
    have run: "mkdirs qs ?w1 = (Inr u, w')" using Cons.prems(1) None by simp
    have q: "q \<noteq> []" using Cons.prems(2) by auto
    note l1 = lookup_put_nonroot [OF q, of "fs w" "Directory (now w)"]
    from Cons.IH [OF run] Cons.prems(2)
    have ih: "\<forall>q\<in>set qs. \<exists>t. lookup (fs w') q = Some (Directory t)"
      "\<forall>p. p \<notin> set qs \<longrightarrow> lookup (fs w') p = lookup (put (fs w) q (Directory (now w))) p"
      "\<forall>p t. lookup (put (fs w) q (Directory (now w))) p = Some (Directory t)
          \<longrightarrow> lookup (fs w') p = Some (Directory t)"
      by auto
    have a: "lookup (fs w') q = Some (Directory (now w))" using ih(3) l1 by simp
    have b: "lookup (fs w') p = Some (Directory t)" if "lookup (fs w) p = Some (Directory t)" for p t
    proof -
      have "p \<noteq> q" using that None by auto
      then show ?thesis using ih(3) l1 that by simp
    qed
    have c: "lookup (fs w') p = lookup (fs w) p" if "p \<notin> set (q # qs)" for p
      using ih(2) l1 that by simp
    show ?thesis using a b c ih(1) by auto
  next
    case (Some n)
    show ?thesis
    proof (cases n)
      case (Regular c t)
      then show ?thesis using Cons.prems(1) Some by simp
    next
      case (Directory t)
      then have run: "mkdirs qs w = (Inr u, w')" using Cons.prems(1) Some by simp
      from Cons.IH [OF run] Cons.prems(2) show ?thesis using Some Directory by auto
    qed
  qed
qed

lemma mkdirs_total:
  assumes "\<forall>q\<in>set qs. \<forall>c t. lookup (fs w) q \<noteq> Some (Regular c t)" "[] \<notin> set qs"
  shows "fst (mkdirs qs w) = Inr ()"
  using assms
proof (induction qs arbitrary: w)
  case Nil
  then show ?case by simp
next
  case (Cons q qs)
  show ?case
  proof (cases "lookup (fs w) q")
    case None
    let ?w1 = "w\<lparr>fs := put (fs w) q (Directory (now w))\<rparr>"
    have q: "q \<noteq> []" using Cons.prems(2) by auto
    note l1 = lookup_put_nonroot [OF q, of "fs w" "Directory (now w)"]
    have "fst (mkdirs qs ?w1) = Inr ()"
      using Cons.prems by (intro Cons.IH) (auto simp: l1)
    then show ?thesis using None by simp
  next
    case (Some n)
    then show ?thesis using Cons by (cases n) auto
  qed
qed

lemma set_tl_prefixes: "set (tl (prefixes p)) = {q. prefix q p \<and> q \<noteq> []}"
  by (cases p) (auto simp: in_set_prefixes prefix_Cons)

lemma Create_success:
  assumes "Create p w = (Inr u, w')"
  shows "p \<noteq> [] \<and> w' = w\<lparr>fs := put (fs w) p (Regular (Raw []) (now w))\<rparr>
     \<and> (\<exists>t. lookup (fs w) (butlast p) = Some (Directory t))
     \<and> (\<forall>t. lookup (fs w) p \<noteq> Some (Directory t))"
  using assms
  by (cases "p = []") (auto simp: Create_def split: if_splits option.splits node.splits)

lemma Create_error: "Create p w = (Inl e, w') \<Longrightarrow> w' = w"
  by (auto simp: Create_def split: if_splits option.splits node.splits)

lemma Create_total:
  assumes "\<not> broken w (OpCreate p)" "lookup (fs w) (butlast p) = Some (Directory t)"
    "\<forall>t. lookup (fs w) p \<noteq> Some (Directory t)"
  shows "fst (Create p w) = Inr ()"
  using assms by (auto simp: Create_def split: option.splits node.splits)

lemma Stat_result:
  "Stat p w = (Inr fi, w') \<Longrightarrow> w' = w \<and> fi = lookup (fs w) p"
  by (auto simp: Stat_def split: if_splits)

lemma Stat_total:
  assumes "\<not> broken w (OpStat p)" "\<forall>q c t. prefix q p \<longrightarrow> lookup (fs w) q \<noteq> Some (Regular c t)"
  shows "Stat p w = (Inr (lookup (fs w) p), w)"
proof -
  have "\<not> list_ex (\<lambda>q. case lookup (fs w) q of Some (Regular c t) \<Rightarrow> True | _ \<Rightarrow> False) (butlast (prefixes p))"
    using assms(2) by (auto simp: list_ex_iff in_set_prefixes dest!: in_set_butlastD split: option.splits node.splits)
  then show ?thesis using assms(1) by (simp add: Stat_def)
qed


lemma MkdirAll_success:
  assumes "MkdirAll p w = (Inr u, w')"
  shows "(\<forall>q. prefix q p \<longrightarrow> (\<exists>t. lookup (fs w') q = Some (Directory t)))
    \<and> (\<forall>q. \<not> prefix q p \<longrightarrow> lookup (fs w') q = lookup (fs w) q)
    \<and> (\<forall>q t. lookup (fs w) q = Some (Directory t) \<longrightarrow> lookup (fs w') q = Some (Directory t))
    \<and> broken w' = broken w \<and> now w' = now w \<and> requests w' = requests w"
proof -
  have run: "mkdirs (tl (prefixes p)) w = (Inr u, w')"
    using assms by (auto simp: MkdirAll_def split: if_splits)
  have "[] \<notin> set (tl (prefixes p))" by (simp add: set_tl_prefixes)
  from mkdirs_success [OF run this] mkdirs_fields [OF run]
  show ?thesis by (auto simp: set_tl_prefixes)
qed

lemma MkdirAll_total:
  assumes "\<not> broken w (OpMkdirAll p)"
    "\<forall>q c t. prefix q p \<longrightarrow> lookup (fs w) q \<noteq> Some (Regular c t)"
  shows "fst (MkdirAll p w) = Inr ()"
  using assms mkdirs_total [of "tl (prefixes p)" w]
  by (simp add: MkdirAll_def set_tl_prefixes)

section \<open>Properties of the directory setup\<close>

lemma ensureOutDirExists_steps:
  assumes "ensureOutDirExists outDir w = (Inr u, w1)"
  shows "\<exists>w2. (if lookup (fs w) outDir = None then MkdirAll outDir w = (Inr (), w2) else w2 = w)
           \<and> Create (outDir @ [dirMarker]) w2 = (Inr (), w1)"
proof -
  obtain r0 w0 where st: "Stat outDir w = (r0, w0)" by (cases "Stat outDir w")
  obtain fi where r0: "r0 = Inr fi"
    using assms st by (cases r0) (simp_all add: ensureOutDirExists_def)
  have w0: "w0 = w" and fi: "fi = lookup (fs w) outDir"
    using Stat_result [of outDir w fi w0] st r0 by simp_all
  show ?thesis
  proof (cases "lookup (fs w) outDir")
    case None
    obtain r2 w2 where mk: "MkdirAll outDir w = (r2, w2)" by (cases "MkdirAll outDir w")
    have r2: "r2 = Inr ()"
      using assms st r0 w0 fi None mk by (cases r2) (simp_all add: ensureOutDirExists_def)
    obtain r3 w3 where cr: "Create (outDir @ [dirMarker]) w2 = (r3, w3)"
      by (cases "Create (outDir @ [dirMarker]) w2")
    have "r3 = Inr () \<and> w3 = w1"
      using assms st r0 w0 fi None mk r2 cr by (cases r3) (simp_all add: ensureOutDirExists_def)
    then show ?thesis using None mk r2 cr by auto
  next
    case (Some n)
    obtain r3 w3 where cr: "Create (outDir @ [dirMarker]) w = (r3, w3)"
      by (cases "Create (outDir @ [dirMarker]) w")
    have "r3 = Inr () \<and> w3 = w1"
      using assms st r0 w0 fi Some cr by (cases r3) (simp_all add: ensureOutDirExists_def)
    then show ?thesis using Some cr by auto
  qed
qed


lemma not_prefix_snoc: "\<not> prefix (p @ [x]) p"
  by (auto simp: prefix_def)

lemma ensureOutDirExists_core:
  assumes "ensureOutDirExists outDir w = (Inr u, w1)"
  obtains w2 :: world where
    "fs w1 = put (fs w2) (outDir @ [dirMarker]) (Regular (Raw []) (now w))"
    "broken w1 = broken w" "now w1 = now w" "requests w1 = requests w"
    "\<exists>t. lookup (fs w2) outDir = Some (Directory t)"
    "\<And>t. lookup (fs w2) (outDir @ [dirMarker]) \<noteq> Some (Directory t)"
    "\<And>q. lookup (fs w) outDir = None \<Longrightarrow> prefix q outDir
        \<Longrightarrow> \<exists>t. lookup (fs w2) q = Some (Directory t)"
    "\<And>q t. lookup (fs w) q = Some (Directory t) \<Longrightarrow> lookup (fs w2) q = Some (Directory t)"
    "\<And>q. lookup (fs w) outDir \<noteq> None \<Longrightarrow> lookup (fs w2) q = lookup (fs w) q"
    "\<And>q. \<not> prefix q outDir \<Longrightarrow> lookup (fs w2) q = lookup (fs w) q"
proof -
  let ?m = "outDir @ [dirMarker]"
  obtain w2 where
    mk: "if lookup (fs w) outDir = None then MkdirAll outDir w = (Inr (), w2) else w2 = w"
    and cr: "Create ?m w2 = (Inr (), w1)"
    using ensureOutDirExists_steps [OF assms] by blast
  have cs: "w1 = w2\<lparr>fs := put (fs w2) ?m (Regular (Raw []) (now w2))\<rparr>"
    and par: "\<exists>t. lookup (fs w2) (butlast ?m) = Some (Directory t)"
    and nd: "\<And>t. lookup (fs w2) ?m \<noteq> Some (Directory t)"
    using Create_success [OF cr] by blast+
  have f1: "fs w1 = put (fs w2) ?m (Regular (Raw []) (now w2))"
    and g1: "broken w1 = broken w2" "now w1 = now w2" "requests w1 = requests w2"
    by (simp_all add: cs)
  have par': "\<exists>t. lookup (fs w2) outDir = Some (Directory t)"
    using par by simp
  show thesis
  proof (cases "lookup (fs w) outDir = None")
    case True
    then have run: "MkdirAll outDir w = (Inr (), w2)" using mk by simp
    note ms = MkdirAll_success [OF run]
    have a: "\<And>q. prefix q outDir \<Longrightarrow> \<exists>t. lookup (fs w2) q = Some (Directory t)"
      using ms by blast
    have b: "\<And>q. \<not> prefix q outDir \<Longrightarrow> lookup (fs w2) q = lookup (fs w) q"
      using ms by blast
    have c: "\<And>q t. lookup (fs w) q = Some (Directory t) \<Longrightarrow> lookup (fs w2) q = Some (Directory t)"
      using ms by blast
    have d: "broken w2 = broken w" "now w2 = now w" "requests w2 = requests w"
      using ms by blast+
    show thesis
    proof (rule that [of w2])
      show "fs w1 = put (fs w2) ?m (Regular (Raw []) (now w))" using f1 d by simp
      show "broken w1 = broken w" using g1 d by simp
      show "now w1 = now w" using g1 d by simp
      show "requests w1 = requests w" using g1 d by simp
      show "\<exists>t. lookup (fs w2) outDir = Some (Directory t)" by (rule par')
      show "lookup (fs w2) ?m \<noteq> Some (Directory t)" for t by (rule nd)
      show "\<exists>t. lookup (fs w2) q = Some (Directory t)" if "prefix q outDir" for q
        using that by (rule a)
      show "lookup (fs w2) q = Some (Directory t)" if "lookup (fs w) q = Some (Directory t)" for q t
        using that by (rule c)
      show "lookup (fs w2) q = lookup (fs w) q" if "lookup (fs w) outDir \<noteq> None" for q
        using that True by simp
      show "lookup (fs w2) q = lookup (fs w) q" if "\<not> prefix q outDir" for q
        using that by (rule b)
    qed
  next
    case False
    then have w2: "w2 = w" using mk by simp
    show thesis
    proof (rule that [of w2])
      show "fs w1 = put (fs w2) ?m (Regular (Raw []) (now w))" using f1 w2 by simp
      show "broken w1 = broken w" using g1 w2 by simp
      show "now w1 = now w" using g1 w2 by simp
      show "requests w1 = requests w" using g1 w2 by simp
      show "\<exists>t. lookup (fs w2) outDir = Some (Directory t)" by (rule par')
      show "lookup (fs w2) ?m \<noteq> Some (Directory t)" for t by (rule nd)
      show "\<exists>t. lookup (fs w2) q = Some (Directory t)"
        if "lookup (fs w) outDir = None" for q
        using that False by simp
      show "lookup (fs w2) q = Some (Directory t)" if "lookup (fs w) q = Some (Directory t)" for q t
        using that w2 by simp
      show "lookup (fs w2) q = lookup (fs w) q" for q
        using w2 by simp
      show "lookup (fs w2) q = lookup (fs w) q" for q
        using w2 by simp
    qed
  qed
qed


lemma ensureOutDirExists_fields:
  assumes "ensureOutDirExists outDir w = (Inr u, w1)"
  shows "broken w1 = broken w" "now w1 = now w" "requests w1 = requests w"
  using ensureOutDirExists_core [OF assms] by metis+

lemma ensureOutDirExists_lookup:
  assumes "ensureOutDirExists outDir w = (Inr u, w1)"
  shows "\<exists>t. lookup (fs w1) outDir = Some (Directory t)"
    and "lookup (fs w1) (outDir @ [dirMarker]) = Some (Regular (Raw []) (now w))"
proof -
  obtain w2 :: world where
    f: "fs w1 = put (fs w2) (outDir @ [dirMarker]) (Regular (Raw []) (now w))"
    and d: "\<exists>t. lookup (fs w2) outDir = Some (Directory t)"
    using ensureOutDirExists_core [OF assms] by metis
  have "lookup (fs w1) outDir = lookup (fs w2) outDir"
    by (simp add: f lookup_put_nonroot)
  then show "\<exists>t. lookup (fs w1) outDir = Some (Directory t)" using d by simp
  show "lookup (fs w1) (outDir @ [dirMarker]) = Some (Regular (Raw []) (now w))"
    by (simp add: f lookup_put_nonroot)
qed

lemma ensureOutDirExists_parents:
  assumes "ensureOutDirExists outDir w = (Inr u, w1)"
    and "lookup (fs w) outDir = None" and "prefix q outDir"
  shows "\<exists>t. lookup (fs w1) q = Some (Directory t)"
proof -
  obtain w2 :: world where
    f: "fs w1 = put (fs w2) (outDir @ [dirMarker]) (Regular (Raw []) (now w))"
    and d: "\<And>q. lookup (fs w) outDir = None \<Longrightarrow> prefix q outDir
        \<Longrightarrow> \<exists>t. lookup (fs w2) q = Some (Directory t)"
    using ensureOutDirExists_core [OF assms(1)] by metis
  have "q \<noteq> outDir @ [dirMarker]" using assms(3) not_prefix_snoc [of outDir dirMarker] by auto
  then have "lookup (fs w1) q = lookup (fs w2) q"
    by (simp add: f lookup_put_nonroot)
  then show ?thesis using d [OF assms(2,3)] by simp
qed

lemma ensureOutDirExists_keeps_directories:
  assumes "ensureOutDirExists outDir w = (Inr u, w1)"
    and "lookup (fs w) q = Some (Directory t)"
  shows "lookup (fs w1) q = Some (Directory t)"
proof -
  obtain w2 :: world where
    f: "fs w1 = put (fs w2) (outDir @ [dirMarker]) (Regular (Raw []) (now w))"
    and nd: "\<And>t. lookup (fs w2) (outDir @ [dirMarker]) \<noteq> Some (Directory t)"
    and d: "\<And>q t. lookup (fs w) q = Some (Directory t) \<Longrightarrow> lookup (fs w2) q = Some (Directory t)"
    using ensureOutDirExists_core [OF assms(1)] by metis
  have q2: "lookup (fs w2) q = Some (Directory t)" using d assms(2) by simp
  then have "q \<noteq> outDir @ [dirMarker]" using nd by auto
  then have "lookup (fs w1) q = lookup (fs w2) q"
    by (simp add: f lookup_put_nonroot)
  then show ?thesis using q2 by simp
qed

lemma ensureOutDirExists_frame:
  assumes "ensureOutDirExists outDir w = (Inr u, w1)"
    and "q \<noteq> outDir @ [dirMarker]"
    and "lookup (fs w) outDir \<noteq> None \<or> \<not> prefix q outDir"
  shows "lookup (fs w1) q = lookup (fs w) q"
proof -
  obtain w2 :: world where
    f: "fs w1 = put (fs w2) (outDir @ [dirMarker]) (Regular (Raw []) (now w))"
    and a: "\<And>q. lookup (fs w) outDir \<noteq> None \<Longrightarrow> lookup (fs w2) q = lookup (fs w) q"
    and b: "\<And>q. \<not> prefix q outDir \<Longrightarrow> lookup (fs w2) q = lookup (fs w) q"
    using ensureOutDirExists_core [OF assms(1)] by metis
  have "lookup (fs w1) q = lookup (fs w2) q"
    using assms(2) by (simp add: f lookup_put_nonroot)
  moreover have "lookup (fs w2) q = lookup (fs w) q"
    using assms(3) a b by blast
  ultimately show ?thesis by simp
qed


lemma MkdirAll_fields:
  assumes "MkdirAll p w = (r, w')"
  shows "broken w' = broken w \<and> now w' = now w \<and> requests w' = requests w"
proof (cases "broken w (OpMkdirAll p)")
  case True
  then show ?thesis using assms by (simp add: MkdirAll_def)
next
  case False
  then have "mkdirs (tl (prefixes p)) w = (r, w')" using assms by (simp add: MkdirAll_def)
  then show ?thesis by (rule mkdirs_fields)
qed

lemma ensureOutDirExists_requests:
  assumes "ensureOutDirExists outDir w = (r, w1)"
  shows "requests w1 = requests w"
proof -
  let ?m = "outDir @ [dirMarker]"
  obtain r0 w0 where st: "Stat outDir w = (r0, w0)" by (cases "Stat outDir w")
  have w0: "w0 = w" using Stat_world [of outDir w] st by simp
  show ?thesis
  proof (cases r0)
    case (Inl e)
    then show ?thesis using assms st w0 by (simp add: ensureOutDirExists_def)
  next
    case (Inr fi)
    obtain r2 w2 where mk: "(if fi = None then MkdirAll outDir w else (Inr (), w)) = (r2, w2)"
      by (cases "if fi = None then MkdirAll outDir w else (Inr (), w)")
    have q2: "requests w2 = requests w"
    proof (cases "fi = None")
      case True
      then have "MkdirAll outDir w = (r2, w2)" using mk by simp
      then show ?thesis using MkdirAll_fields by blast
    next
      case False
      then have "(Inr (), w) = (r2, w2)" using mk by (simp only: if_False)
      then show ?thesis by simp
    qed
    show ?thesis
    proof (cases r2)
      case (Inl e)
      then show ?thesis using assms st w0 Inr mk q2 by (simp add: ensureOutDirExists_def)
    next
      case (Inr u2)
      obtain r3 w3 where cr: "Create ?m w2 = (r3, w3)" by (cases "Create ?m w2")
      have q3: "requests w3 = requests w2"
      proof (cases r3)
        case (Inl e)
        then show ?thesis using Create_error cr by blast
      next
        case (Inr u3)
        then show ?thesis using Create_success [of ?m w2 u3 w3] cr by simp
      qed
      have "w1 = w3"
        using assms st w0 \<open>r0 = Inr fi\<close> mk Inr cr
        by (cases r3) (simp_all add: ensureOutDirExists_def)
      then show ?thesis using q2 q3 by simp
    qed
  qed
qed

lemma ensureOutDirExists_total:
  assumes "\<not> broken w (OpStat outDir)" "\<not> broken w (OpMkdirAll outDir)"
    "\<not> broken w (OpCreate (outDir @ [dirMarker]))"
    "\<forall>q c t. prefix q outDir \<longrightarrow> lookup (fs w) q \<noteq> Some (Regular c t)"
    "\<forall>t. lookup (fs w) (outDir @ [dirMarker]) \<noteq> Some (Directory t)"
  shows "fst (ensureOutDirExists outDir w) = Inr ()"
proof -
  let ?m = "outDir @ [dirMarker]"
  have st: "Stat outDir w = (Inr (lookup (fs w) outDir), w)"
    using assms(1,4) by (rule Stat_total)
  show ?thesis
  proof (cases "lookup (fs w) outDir")
    case None
    obtain r2 w2 where mk: "MkdirAll outDir w = (r2, w2)" by (cases "MkdirAll outDir w")
    have "r2 = Inr ()" using MkdirAll_total [OF assms(2,4)] mk by simp
    then have mk': "MkdirAll outDir w = (Inr (), w2)" using mk by simp
    note ms = MkdirAll_success [OF mk']
    have d: "\<exists>t. lookup (fs w2) outDir = Some (Directory t)"
      using ms by blast
    have "\<not> prefix ?m outDir" by (rule not_prefix_snoc)
    then have m: "lookup (fs w2) ?m = lookup (fs w) ?m"
      using ms by blast
    have b: "broken w2 = broken w" using ms by blast
    obtain t where "lookup (fs w2) (butlast ?m) = Some (Directory t)" using d by auto
    moreover have "\<not> broken w2 (OpCreate ?m)" using assms(3) b by simp
    moreover have "\<forall>t. lookup (fs w2) ?m \<noteq> Some (Directory t)" using assms(5) m by simp
    ultimately have c: "fst (Create ?m w2) = Inr ()" using Create_total by blast
    obtain r3 w3 where cr: "Create ?m w2 = (r3, w3)" by (cases "Create ?m w2")
    then have "r3 = Inr ()" using c by simp
    then show ?thesis using st None mk' cr by (simp add: ensureOutDirExists_def)
  next
    case (Some n)
    have "\<forall>c t. n \<noteq> Regular c t" using assms(4) Some by auto
    then obtain t where "n = Directory t" by (cases n) auto
    then have "lookup (fs w) (butlast ?m) = Some (Directory t)" using Some by simp
    then have c: "fst (Create ?m w) = Inr ()"
      using assms(3,5) Create_total by blast
    obtain r3 w3 where cr: "Create ?m w = (r3, w3)" by (cases "Create ?m w")
    then have "r3 = Inr ()" using c by simp
    then show ?thesis using st Some cr by (simp add: ensureOutDirExists_def)
  qed
qed

section \<open>Properties of the reclaimer\<close>

lemma RemoveAll_frame:
  assumes "RemoveAll p w = (r, w')"
  shows "broken w' = broken w \<and> now w' = now w \<and> requests w' = requests w
    \<and> (\<forall>q. \<not> prefix p q \<longrightarrow> lookup (fs w') q = lookup (fs w) q)"
  using assms by (auto simp: RemoveAll_def lookup_prune split: if_splits)

lemma removeLoop_frame:
  assumes "removeLoop E outDir files w = (r, w')"
    and "\<forall>f\<in>set files. fst f = c \<longrightarrow>
           fst f \<in> E \<or> \<not> isManagedDirectory outDir f w \<or> c = dirMarker"
  shows "broken w' = broken w
    \<and> (\<forall>q. prefix (outDir @ [c]) q \<longrightarrow> lookup (fs w') q = lookup (fs w) q)"
  using assms
proof (induction files arbitrary: w)
  case Nil
  then show ?case by simp
next
  case (Cons f files)
  let ?skip = "fst f \<in> E \<or> \<not> isManagedDirectory outDir f w \<or> fst f = dirMarker"
  show ?case
  proof (cases ?skip)
    case True
    then have "removeLoop E outDir files w = (r, w')"
      using Cons.prems(1) by (auto split: if_splits)
    then show ?thesis using Cons.IH [of w] Cons.prems(2) by simp
  next
    case False
    then have neq: "fst f \<noteq> c" using Cons.prems(2) by auto
    obtain r1 w1 where rm: "RemoveAll (outDir @ [fst f]) w = (r1, w1)"
      by (cases "RemoveAll (outDir @ [fst f]) w")
    have fr: "broken w1 = broken w"
      "\<And>q. \<not> prefix (outDir @ [fst f]) q \<Longrightarrow> lookup (fs w1) q = lookup (fs w) q"
      using RemoveAll_frame [OF rm] by auto
    have below: "lookup (fs w1) q = lookup (fs w) q" if "prefix (outDir @ [c]) q" for q
      using fr(2) prefix_snoc_neq [of c "fst f" outDir q] neq that by auto
    show ?thesis
    proof (cases r1)
      case (Inl e)
      then have "w' = w1" using Cons.prems(1) False rm by auto
      then show ?thesis using fr(1) below by simp
    next
      case (Inr u)
      then have run: "removeLoop E outDir files w1 = (r, w')"
        using Cons.prems(1) False rm by auto
      have "isManagedDirectory outDir g w1 = isManagedDirectory outDir g w"
        if "fst g = c" for g
      proof (rule isManagedDirectory_cong [OF fr(1)], intro allI impI)
        fix q assume "prefix q (outDir @ [fst g, dirMarker])"
        then have "\<not> prefix (outDir @ [fst f]) q"
          using prefix_below_child [of c "fst f" q outDir dirMarker] neq that by auto
        then show "lookup (fs w1) q = lookup (fs w) q" by (rule fr(2))
      qed
      then have "\<forall>g\<in>set files. fst g = c \<longrightarrow>
           fst g \<in> E \<or> \<not> isManagedDirectory outDir g w1 \<or> c = dirMarker"
        using Cons.prems(2) by auto
      from Cons.IH [OF run this] show ?thesis using fr(1) below by simp
    qed
  qed
qed

lemma ReadDir_entries:
  assumes "ReadDir p w = (Inr files, w1)"
  shows "w1 = w \<and> (\<forall>f\<in>set files. lookup (fs w) (p @ [fst f]) = Some (snd f))"
  using assms
  by (auto simp: ReadDir_def split: if_splits option.splits node.splits)

lemma ReadDir_error: "ReadDir p w = (Inl e, w1) \<Longrightarrow> w1 = w"
  by (auto simp: ReadDir_def split: if_splits option.splits node.splits)

lemma isManagedDirectory_needs_marker:
  "isManagedDirectory basePath f w \<Longrightarrow>
     IsDir (snd f) \<and> lookup (fs w) (basePath @ [fst f, dirMarker]) \<noteq> None"
  by (auto simp: isManagedDirectory_def Stat_def Let_def split: if_splits sum.splits option.splits)

lemma removeDeletedFiles_frame:
  assumes "removeDeletedFiles fl outDir w = (r, w')"
    and "c = dirMarker \<or> \<not> (\<exists>t. lookup (fs w) (outDir @ [c]) = Some (Directory t)
           \<and> lookup (fs w) (outDir @ [c, dirMarker]) \<noteq> None)"
    and "prefix (outDir @ [c]) q"
  shows "lookup (fs w') q = lookup (fs w) q"
proof (cases "ReadDir outDir w")
  case (Pair r1 w1)
  show ?thesis
  proof (cases r1)
    case (Inl e)
    then show ?thesis using assms(1) Pair ReadDir_error [of outDir w e w1]
      by (simp add: removeDeletedFiles_def)
  next
    case (Inr files)
    then have rd: "ReadDir outDir w = (Inr files, w1)" using Pair by simp
    have w1: "w1 = w" and ent: "\<forall>f\<in>set files. lookup (fs w) (outDir @ [fst f]) = Some (snd f)"
      using ReadDir_entries [OF rd] by auto
    have run: "removeLoop (set (map Name (Files fl))) outDir files w = (r, w')"
      using assms(1) rd w1 by (simp add: removeDeletedFiles_def)
    have "\<forall>f\<in>set files. fst f = c \<longrightarrow>
           fst f \<in> set (map Name (Files fl)) \<or> \<not> isManagedDirectory outDir f w \<or> c = dirMarker"
    proof (intro ballI impI)
      fix f assume f: "f \<in> set files" "fst f = c"
      show "fst f \<in> set (map Name (Files fl)) \<or> \<not> isManagedDirectory outDir f w \<or> c = dirMarker"
      proof (cases "c = dirMarker")
        case True
        then show ?thesis by simp
      next
        case False
        have "\<not> isManagedDirectory outDir f w"
        proof
          assume "isManagedDirectory outDir f w"
          then have "IsDir (snd f)" "lookup (fs w) (outDir @ [c, dirMarker]) \<noteq> None"
            using isManagedDirectory_needs_marker [of outDir f w] f(2) by auto
          moreover have "lookup (fs w) (outDir @ [c]) = Some (snd f)"
            using ent f by auto
          ultimately show False using assms(2) False by (cases "snd f") auto
        qed
        then show ?thesis by simp
      qed
    qed
    from removeLoop_frame [OF run this] show ?thesis using assms(3) by simp
  qed
qed

text \<open>
  Claim C2 does not hold of the code. In the mirror \<open>mirrored\<close>, with \<open>a.txt\<close> and
  \<open>old\<close> gone from the listing, \<open>removeDeletedFiles\<close> succeeds and removes the managed
  directory \<open>old\<close>, but the stale regular file \<open>a.txt\<close> is still there afterwards.
\<close>

theorem removeDeletedFiles_keeps_stale_regular_file:
  "fst (removeDeletedFiles subOnly [''out''] mirrored) = Inr ()
   \<and> lookup (fs (snd (removeDeletedFiles subOnly [''out''] mirrored))) [''out'', ''a.txt'']
       = Some (Regular (Raw ''A'') 100)
   \<and> lookup (fs (snd (removeDeletedFiles subOnly [''out''] mirrored))) [''out'', ''old'']
       = None"
  by code_simp

text \<open>
  Claim C4: whatever the listing says, \<open>removeDeletedFiles\<close> leaves the marker entry of
  \<open>outDir\<close> as it was, and leaves every directory below \<open>outDir\<close> that has no marker of
  its own as it was, with everything inside it.
\<close>

theorem removeDeletedFiles_keeps_marker_and_unmanaged:
  assumes "removeDeletedFiles fl outDir w = (r, w')"
  shows "lookup (fs w') (outDir @ [dirMarker]) = lookup (fs w) (outDir @ [dirMarker])
    \<and> (lookup (fs w) (outDir @ [c]) = Some (Directory t)
         \<and> lookup (fs w) (outDir @ [c, dirMarker]) = None
         \<and> prefix (outDir @ [c]) q
       \<longrightarrow> lookup (fs w') q = lookup (fs w) q)"
proof
  show "lookup (fs w') (outDir @ [dirMarker]) = lookup (fs w) (outDir @ [dirMarker])"
    using removeDeletedFiles_frame [OF assms, of dirMarker "outDir @ [dirMarker]"] by simp
  show "lookup (fs w) (outDir @ [c]) = Some (Directory t)
         \<and> lookup (fs w) (outDir @ [c, dirMarker]) = None
         \<and> prefix (outDir @ [c]) q
       \<longrightarrow> lookup (fs w') q = lookup (fs w) q"
    using removeDeletedFiles_frame [OF assms, of c q] by auto
qed

theorem removeDeletedFiles_keeps_marker_and_unmanaged_witness:
  "lookup (fs (snd (removeDeletedFiles subOnly [''out''] mirrored))) [''out'', ''.duetbackup'']
     = Some (Regular (Raw []) 0)
   \<and> lookup (fs (snd (removeDeletedFiles subOnly [''out''] mirrored)))
       [''out'', ''notes'', ''todo.txt''] = Some (Regular (Raw ''T'') 7)"
  using removeDeletedFiles_keeps_marker_and_unmanaged
    [of subOnly "[''out'']" mirrored "fst (removeDeletedFiles subOnly [''out''] mirrored)"
        "snd (removeDeletedFiles subOnly [''out''] mirrored)"
        "''notes''" 0 "[''out'', ''notes'', ''todo.txt'']"]
  by (simp add: mirrored_def lookup_def dirMarker_def)

text \<open>
  Claim C10: a child of \<open>outDir\<close> that is not a directory with a marker entry of its own
  is left as it was by \<open>removeDeletedFiles\<close>, with everything below it, whatever the
  listing says; so no regular file is ever removed.
\<close>

theorem removeDeletedFiles_touches_managed_directories_only:
  assumes "removeDeletedFiles fl outDir w = (r, w')"
    and "\<not> (\<exists>t. lookup (fs w) (outDir @ [c]) = Some (Directory t)
           \<and> lookup (fs w) (outDir @ [c, dirMarker]) \<noteq> None)"
    and "prefix (outDir @ [c]) q"
  shows "lookup (fs w') q = lookup (fs w) q"
  using removeDeletedFiles_frame [OF assms(1) _ assms(3)] assms(2) by simp

theorem removeDeletedFiles_touches_managed_directories_only_witness:
  "lookup (fs (snd (removeDeletedFiles \<lparr>Dir = ''0:/sys'', Files = [], next' = 0\<rparr> [''out'']
      mirrored))) [''out'', ''a.txt''] = Some (Regular (Raw ''A'') 100)"
  using removeDeletedFiles_touches_managed_directories_only
    [of "\<lparr>Dir = ''0:/sys'', Files = [], next' = 0\<rparr>" "[''out'']" mirrored
        "fst (removeDeletedFiles \<lparr>Dir = ''0:/sys'', Files = [], next' = 0\<rparr> [''out''] mirrored)"
        "snd (removeDeletedFiles \<lparr>Dir = ''0:/sys'', Files = [], next' = 0\<rparr> [''out''] mirrored)"
        "''a.txt''" "[''out'', ''a.txt'']"]
  by (simp add: mirrored_def lookup_def dirMarker_def)

section \<open>Properties of the mirror updater\<close>

lemma Write_success:
  assumes "Write p b w = (Inr u, w')"
  shows "w' = w\<lparr>fs := put (fs w) p (Regular b (now w))\<rparr>"
  using assms by (auto simp: Write_def split: if_splits option.splits node.splits)

lemma Write_error: "Write p b w = (Inl e, w') \<Longrightarrow> w' = w"
  by (auto simp: Write_def split: if_splits option.splits node.splits)

lemma Chtimes_Regular:
  assumes "lookup (fs w) p = Some (Regular c t0)" "p \<noteq> []"
  shows "snd (Chtimes p t w) =
    (if broken w (OpChtimes p) then w else w\<lparr>fs := put (fs w) p (Regular c t)\<rparr>)"
  using assms by (simp add: Chtimes_def)

text \<open>What one iteration does, case by case.\<close>

lemma updateFile_skip:
  "Type f = typeDirectory \<or> excludes_Contains exs (dir @ ''/'' @ Name f) \<Longrightarrow>
   updateFile srv baseURL dir outDir exs f w = (Inr (), w)"
  by (auto simp: updateFile_def)

lemma updateFile_stat_error:
  assumes "Type f \<noteq> typeDirectory" "\<not> excludes_Contains exs (dir @ ''/'' @ Name f)"
    "fst (Stat (outDir @ [Name f]) w) = Inl e"
  shows "updateFile srv baseURL dir outDir exs f w = (Inl e, w)"
  using assms Stat_world [of "outDir @ [Name f]" w]
  by (cases "Stat (outDir @ [Name f]) w") (auto simp: updateFile_def Let_def)

lemma updateFile_up_to_date:
  assumes "Type f \<noteq> typeDirectory" "\<not> excludes_Contains exs (dir @ ''/'' @ Name f)"
    "fst (Stat (outDir @ [Name f]) w) = Inr (Some i)" "\<not> ModTime i < Date f"
  shows "updateFile srv baseURL dir outDir exs f w = (Inr (), w)"
  using assms Stat_world [of "outDir @ [Name f]" w]
  by (cases "Stat (outDir @ [Name f]) w") (auto simp: updateFile_def Let_def)

lemma updateFile_stale:
  assumes "Type f \<noteq> typeDirectory" "\<not> excludes_Contains exs (dir @ ''/'' @ Name f)"
    "fst (Stat (outDir @ [Name f]) w) = Inr fi"
    "case fi of None \<Rightarrow> True | Some i \<Rightarrow> ModTime i < Date f"
  shows "updateFile srv baseURL dir outDir exs f w =
    (case srv (baseURL @ fileDownloadURL @ QueryEscape (dir @ ''/'' @ Name f)) of
       Inl e \<Rightarrow> (Inl e, w\<lparr>requests := requests w
                   @ [baseURL @ fileDownloadURL @ QueryEscape (dir @ ''/'' @ Name f)]\<rparr>)
     | Inr b \<Rightarrow>
       (case Create (outDir @ [Name f]) (w\<lparr>requests := requests w
                   @ [baseURL @ fileDownloadURL @ QueryEscape (dir @ ''/'' @ Name f)]\<rparr>) of
          (Inl e, w3) \<Rightarrow> (Inl e, w3)
        | (Inr u, w3) \<Rightarrow>
          (case Write (outDir @ [Name f]) b w3 of
             (Inl e, w4) \<Rightarrow> (Inl e, w4)
           | (Inr u', w4) \<Rightarrow> (Inr (), snd (Chtimes (outDir @ [Name f]) (Date f) w4)))))"
  using assms Stat_world [of "outDir @ [Name f]" w]
  by (cases "Stat (outDir @ [Name f]) w")
     (auto simp: updateFile_def download_def Let_def split: sum.splits)

lemma updateFile_download_result:
  assumes "Type f \<noteq> typeDirectory" "\<not> excludes_Contains exs (dir @ ''/'' @ Name f)"
    "fst (Stat (outDir @ [Name f]) w) = Inr fi"
    "case fi of None \<Rightarrow> True | Some i \<Rightarrow> ModTime i < Date f"
    "updateFile srv baseURL dir outDir exs f w = (r, w')"
  shows "requests w' = requests w @ [baseURL @ fileDownloadURL @ QueryEscape (dir @ ''/'' @ Name f)]
    \<and> broken w' = broken w \<and> now w' = now w
    \<and> (\<forall>q. q \<noteq> outDir @ [Name f] \<longrightarrow> lookup (fs w') q = lookup (fs w) q)
    \<and> (r = Inr () \<longrightarrow> (\<exists>b. srv (baseURL @ fileDownloadURL @ QueryEscape (dir @ ''/'' @ Name f)) = Inr b
          \<and> (\<forall>t. lookup (fs w) (outDir @ [Name f]) \<noteq> Some (Directory t))
          \<and> lookup (fs w') (outDir @ [Name f]) =
              Some (Regular b (if broken w (OpChtimes (outDir @ [Name f])) then now w else Date f))))
    \<and> (\<forall>e. r = Inl e \<longrightarrow> (\<forall>t. lookup (fs w) (outDir @ [Name f]) = Some (Directory t)
          \<longrightarrow> lookup (fs w') (outDir @ [Name f]) = Some (Directory t)))
    \<and> (lookup (fs w) (outDir @ [Name f]) \<noteq> None \<longrightarrow> lookup (fs w') (outDir @ [Name f]) \<noteq> None)"
proof -
  let ?p = "outDir @ [Name f]"
  let ?url = "baseURL @ fileDownloadURL @ QueryEscape (dir @ ''/'' @ Name f)"
  let ?w1 = "w\<lparr>requests := requests w @ [?url]\<rparr>"
  note eq = updateFile_stale [OF assms(1-4), of srv baseURL]
  show ?thesis
  proof (cases "srv ?url")
    case (Inl e)
    then show ?thesis using eq assms(5) by auto
  next
    case (Inr b)
    obtain r3 w3 where cr: "Create ?p ?w1 = (r3, w3)" by (cases "Create ?p ?w1")
    show ?thesis
    proof (cases r3)
      case (Inl e)
      then have "w3 = ?w1" using Create_error cr by blast
      then show ?thesis using eq assms(5) Inr cr Inl by auto
    next
      case (Inr u)
      then have cr': "Create ?p ?w1 = (Inr u, w3)" using cr by simp
      have w3: "w3 = ?w1\<lparr>fs := put (fs w) ?p (Regular (Raw []) (now w))\<rparr>"
        and nd: "\<forall>t. lookup (fs w) ?p \<noteq> Some (Directory t)"
        using Create_success [OF cr'] by auto
      have l3: "lookup (fs w3) q = (if q = ?p then Some (Regular (Raw []) (now w)) else lookup (fs w) q)" for q
        using w3 by (simp add: lookup_put_nonroot)
      obtain r4 w4 where wr: "Write ?p b w3 = (r4, w4)" by (cases "Write ?p b w3")
      show ?thesis
      proof (cases r4)
        case (Inl e)
        then have "w4 = w3" using Write_error wr by blast
        then show ?thesis using eq assms(5) \<open>srv ?url = Inr b\<close> cr' wr Inl w3 l3 nd by auto
      next
        case (Inr u')
        then have wr': "Write ?p b w3 = (Inr u', w4)" using wr by simp
        have w4: "w4 = w3\<lparr>fs := put (fs w3) ?p (Regular b (now w))\<rparr>"
          using Write_success [OF wr'] w3 by simp
        have l4: "lookup (fs w4) q = (if q = ?p then Some (Regular b (now w)) else lookup (fs w) q)" for q
          using w4 l3 by (simp add: lookup_put_nonroot)
        have b4: "broken w4 = broken w" using w4 w3 by simp
        have ch: "snd (Chtimes ?p (Date f) w4) =
           (if broken w (OpChtimes ?p) then w4 else w4\<lparr>fs := put (fs w4) ?p (Regular b (Date f))\<rparr>)"
          using Chtimes_Regular [of w4 ?p b "now w" "Date f"] l4 b4 by simp
        have res: "r = Inr ()" "w' = snd (Chtimes ?p (Date f) w4)"
          using eq assms(5) \<open>srv ?url = Inr b\<close> cr' wr' by auto
        show ?thesis
          using res ch l4 w4 w3 nd \<open>srv ?url = Inr b\<close>
          by (auto simp: lookup_put_nonroot)
      qed
    qed
  qed
qed


lemma updateFile_unchanged_or_stale:
  assumes "updateFile srv baseURL dir outDir exs f w = (r, w')"
  shows "w' = w \<or>
    (Type f \<noteq> typeDirectory \<and> \<not> excludes_Contains exs (dir @ ''/'' @ Name f)
      \<and> (\<exists>fi. fst (Stat (outDir @ [Name f]) w) = Inr fi
            \<and> (case fi of None \<Rightarrow> True | Some i \<Rightarrow> ModTime i < Date f)))"
proof (cases "Type f = typeDirectory \<or> excludes_Contains exs (dir @ ''/'' @ Name f)")
  case True
  then show ?thesis using assms updateFile_skip [of f exs dir srv baseURL outDir w] by simp
next
  case False
  then have a: "Type f \<noteq> typeDirectory" "\<not> excludes_Contains exs (dir @ ''/'' @ Name f)"
    by simp_all
  show ?thesis
  proof (cases "fst (Stat (outDir @ [Name f]) w)")
    case (Inl e)
    then show ?thesis using assms updateFile_stat_error [OF a, of outDir w e srv baseURL] by simp
  next
    case (Inr fi)
    show ?thesis
    proof (cases "case fi of None \<Rightarrow> True | Some i \<Rightarrow> ModTime i < Date f")
      case True
      then show ?thesis using a Inr by blast
    next
      case False
      then obtain i where i: "fi = Some i" "\<not> ModTime i < Date f"
        by (cases fi) auto
      then show ?thesis
        using assms updateFile_up_to_date [OF a, of outDir w i srv baseURL] Inr by simp
    qed
  qed
qed

lemma updateFile_effect:
  assumes "updateFile srv baseURL dir outDir exs f w = (r, w')"
  shows "broken w' = broken w" and "now w' = now w"
    and "q \<noteq> outDir @ [Name f] \<Longrightarrow> lookup (fs w') q = lookup (fs w) q"
    and "lookup (fs w) q = Some (Directory t) \<Longrightarrow> lookup (fs w') q = Some (Directory t)"
    and "lookup (fs w) q \<noteq> None \<Longrightarrow> lookup (fs w') q \<noteq> None"
proof -
  consider (same) "w' = w"
    | (stale) fi where "Type f \<noteq> typeDirectory"
        "\<not> excludes_Contains exs (dir @ ''/'' @ Name f)"
        "fst (Stat (outDir @ [Name f]) w) = Inr fi"
        "case fi of None \<Rightarrow> True | Some i \<Rightarrow> ModTime i < Date f"
    using updateFile_unchanged_or_stale [OF assms] by blast
  then have "broken w' = broken w \<and> now w' = now w
    \<and> (q \<noteq> outDir @ [Name f] \<longrightarrow> lookup (fs w') q = lookup (fs w) q)
    \<and> (lookup (fs w) q = Some (Directory t) \<longrightarrow> lookup (fs w') q = Some (Directory t))
    \<and> (lookup (fs w) q \<noteq> None \<longrightarrow> lookup (fs w') q \<noteq> None)"
  proof cases
    case same
    then show ?thesis by simp
  next
    case stale
    note d = updateFile_download_result [OF stale assms]
    have 1: "broken w' = broken w" "now w' = now w" using d by blast+
    have 2: "q \<noteq> outDir @ [Name f] \<Longrightarrow> lookup (fs w') q = lookup (fs w) q"
      using d by blast
    have 3: "lookup (fs w') q = Some (Directory t)" if h: "lookup (fs w) q = Some (Directory t)"
    proof (cases "q = outDir @ [Name f]")
      case False
      then show ?thesis using 2 h by simp
    next
      case True
      show ?thesis
      proof (cases r)
        case (Inl e)
        then show ?thesis using d True h by blast
      next
        case (Inr u)
        then have "\<forall>t. lookup (fs w) (outDir @ [Name f]) \<noteq> Some (Directory t)"
          using d by auto
        then show ?thesis using True h by simp
      qed
    qed
    have 4: "lookup (fs w') q \<noteq> None" if h: "lookup (fs w) q \<noteq> None"
    proof (cases "q = outDir @ [Name f]")
      case False
      then show ?thesis using 2 h by simp
    next
      case True
      then show ?thesis using d h by blast
    qed
    show ?thesis using 1 2 3 4 by blast
  qed
  then show "broken w' = broken w" and "now w' = now w"
    and "q \<noteq> outDir @ [Name f] \<Longrightarrow> lookup (fs w') q = lookup (fs w) q"
    and "lookup (fs w) q = Some (Directory t) \<Longrightarrow> lookup (fs w') q = Some (Directory t)"
    and "lookup (fs w) q \<noteq> None \<Longrightarrow> lookup (fs w') q \<noteq> None"
    by blast+
qed

lemma updateLoop_effect:
  assumes "updateLoop srv baseURL dir outDir exs files w = (r, w')"
  shows "broken w' = broken w \<and> now w' = now w
    \<and> (lookup (fs w) q = Some (Directory t) \<longrightarrow> lookup (fs w') q = Some (Directory t))
    \<and> (lookup (fs w) q \<noteq> None \<longrightarrow> lookup (fs w') q \<noteq> None)"
  using assms
proof (induction files arbitrary: w)
  case Nil
  then show ?case by simp
next
  case (Cons f files)
  obtain r1 w1 where st: "updateFile srv baseURL dir outDir exs f w = (r1, w1)"
    by (cases "updateFile srv baseURL dir outDir exs f w")
  note e = updateFile_effect(1,2) [OF st] updateFile_effect(4) [OF st, of q t]
    updateFile_effect(5) [OF st, of q]
  show ?case
  proof (cases r1)
    case (Inl e1)
    then have "w' = w1" using Cons.prems st by simp
    then show ?thesis using e by simp
  next
    case (Inr u)
    then have "updateLoop srv baseURL dir outDir exs files w1 = (r, w')"
      using Cons.prems st by simp
    from Cons.IH [OF this] show ?thesis using e by simp
  qed
qed

section \<open>Two updates in a row, and the end of a failed update\<close>

text \<open>
  An entry is of no concern to the loop when it is a directory, is excluded, or has a
  local node that is not older than the entry. The loop changes nothing for such entries,
  and a successful loop in which \<open>os.Chtimes\<close> is never refused leaves every entry in
  that state.
\<close>

lemma updateFile_fresh:
  assumes "Type f = typeDirectory \<or> excludes_Contains exs (dir @ ''/'' @ Name f)
     \<or> (\<exists>n. lookup (fs w) (outDir @ [Name f]) = Some n \<and> Date f \<le> ModTime n)"
  shows "snd (updateFile srv baseURL dir outDir exs f w) = w"
proof -
  obtain r w' where run: "updateFile srv baseURL dir outDir exs f w = (r, w')"
    by (cases "updateFile srv baseURL dir outDir exs f w")
  have "w' = w"
  proof (rule ccontr)
    assume "w' \<noteq> w"
    then obtain fi where a: "Type f \<noteq> typeDirectory"
        "\<not> excludes_Contains exs (dir @ ''/'' @ Name f)"
      and st: "fst (Stat (outDir @ [Name f]) w) = Inr fi"
      and stale: "case fi of None \<Rightarrow> True | Some i \<Rightarrow> ModTime i < Date f"
      using updateFile_unchanged_or_stale [OF run] by blast
    have "fi = lookup (fs w) (outDir @ [Name f])"
      using Stat_result [of "outDir @ [Name f]" w fi "snd (Stat (outDir @ [Name f]) w)"] st
      by (metis prod.collapse)
    moreover obtain n where "lookup (fs w) (outDir @ [Name f]) = Some n" "Date f \<le> ModTime n"
      using assms a by blast
    ultimately show False using stale by simp
  qed
  then show ?thesis using run by simp
qed

lemma updateLoop_fresh:
  assumes "\<forall>f\<in>set files. Type f = typeDirectory \<or> excludes_Contains exs (dir @ ''/'' @ Name f)
     \<or> (\<exists>n. lookup (fs w) (outDir @ [Name f]) = Some n \<and> Date f \<le> ModTime n)"
  shows "snd (updateLoop srv baseURL dir outDir exs files w) = w"
  using assms
proof (induction files)
  case Nil
  then show ?case by simp
next
  case (Cons f files)
  have "snd (updateFile srv baseURL dir outDir exs f w) = w"
    using Cons.prems by (intro updateFile_fresh) simp
  then obtain r where "updateFile srv baseURL dir outDir exs f w = (r, w)"
    by (metis prod.collapse)
  then show ?case using Cons by (cases r) simp_all
qed

lemma updateFile_mtime:
  assumes "updateFile srv baseURL dir outDir exs f w = (Inr (), w')"
    and "\<not> broken w (OpChtimes (outDir @ [Name f]))"
  shows "(lookup (fs w) q = Some n \<longrightarrow>
            (\<exists>n'. lookup (fs w') q = Some n' \<and> ModTime n \<le> ModTime n'))
    \<and> (Type f = typeDirectory \<or> excludes_Contains exs (dir @ ''/'' @ Name f)
        \<or> (\<exists>n. lookup (fs w') (outDir @ [Name f]) = Some n \<and> Date f \<le> ModTime n))"
proof (cases "Type f = typeDirectory \<or> excludes_Contains exs (dir @ ''/'' @ Name f)")
  case True
  then have "w' = w" using assms(1) updateFile_skip [of f exs dir srv baseURL outDir w] by simp
  then show ?thesis using True by auto
next
  case False
  then have a: "Type f \<noteq> typeDirectory" "\<not> excludes_Contains exs (dir @ ''/'' @ Name f)"
    by simp_all
  let ?p = "outDir @ [Name f]"
  obtain fi where st: "fst (Stat ?p w) = Inr fi"
    using assms(1) updateFile_stat_error [OF a, of outDir w _ srv baseURL]
    by (cases "fst (Stat ?p w)") auto
  have fi: "fi = lookup (fs w) ?p"
    using Stat_result [of ?p w fi "snd (Stat ?p w)"] st by (metis prod.collapse)
  show ?thesis
  proof (cases "case fi of None \<Rightarrow> True | Some i \<Rightarrow> ModTime i < Date f")
    case True
    note d = updateFile_download_result [OF a st True assms(1)]
    obtain b where new: "lookup (fs w') ?p = Some (Regular b (Date f))"
      using d assms(2) by auto
    have other: "lookup (fs w') q = lookup (fs w) q" if "q \<noteq> ?p"
      using d that by blast
    have "\<exists>n'. lookup (fs w') q = Some n' \<and> ModTime n \<le> ModTime n'"
      if h: "lookup (fs w) q = Some n"
    proof (cases "q = ?p")
      case False
      then show ?thesis using other h by simp
    next
      case qp: True
      then have "fi = Some n" using fi h by simp
      then have "ModTime n < Date f" using True by simp
      then show ?thesis using new qp by simp
    qed
    then show ?thesis using new by auto
  next
    case False
    then obtain i where i: "fi = Some i" "\<not> ModTime i < Date f" by (cases fi) auto
    have "w' = w" using assms(1) updateFile_up_to_date [OF a, of outDir w i srv baseURL] st i by simp
    then show ?thesis using i fi by auto
  qed
qed

lemma updateLoop_mtime:
  assumes "updateLoop srv baseURL dir outDir exs files w = (Inr (), w')"
    and "\<forall>p. \<not> broken w (OpChtimes p)"
  shows "(lookup (fs w) q = Some n \<longrightarrow>
            (\<exists>n'. lookup (fs w') q = Some n' \<and> ModTime n \<le> ModTime n'))
    \<and> (\<forall>f\<in>set files. Type f = typeDirectory \<or> excludes_Contains exs (dir @ ''/'' @ Name f)
        \<or> (\<exists>n. lookup (fs w') (outDir @ [Name f]) = Some n \<and> Date f \<le> ModTime n))"
  using assms
proof (induction files arbitrary: w q n)
  case Nil
  then show ?case by simp
next
  case (Cons f files)
  obtain r1 w1 where st: "updateFile srv baseURL dir outDir exs f w = (r1, w1)"
    by (cases "updateFile srv baseURL dir outDir exs f w")
  have r1: "r1 = Inr ()" using Cons.prems(1) st by (cases r1) simp_all
  have run: "updateLoop srv baseURL dir outDir exs files w1 = (Inr (), w')"
    using Cons.prems(1) st r1 by simp
  have st': "updateFile srv baseURL dir outDir exs f w = (Inr (), w1)" using st r1 by simp
  have b1: "broken w1 = broken w" using updateFile_effect(1) [OF st'] .
  then have nb: "\<forall>p. \<not> broken w1 (OpChtimes p)" using Cons.prems(2) by simp
  note step = updateFile_mtime [OF st', of _ _] 
  note ih = Cons.IH [OF run nb]
  have mono: "\<exists>n'. lookup (fs w') q = Some n' \<and> ModTime n \<le> ModTime n'"
    if h: "lookup (fs w) q = Some n" for q n
  proof -
    obtain n1 where n1: "lookup (fs w1) q = Some n1" "ModTime n \<le> ModTime n1"
      using updateFile_mtime [OF st', of q n] Cons.prems(2) h by blast
    obtain n' where "lookup (fs w') q = Some n'" "ModTime n1 \<le> ModTime n'"
      using ih [of q n1] n1(1) by blast
    then show ?thesis using n1(2) by auto
  qed
  have freshf: "Type f = typeDirectory \<or> excludes_Contains exs (dir @ ''/'' @ Name f)
        \<or> (\<exists>n. lookup (fs w') (outDir @ [Name f]) = Some n \<and> Date f \<le> ModTime n)"
  proof -
    have "Type f = typeDirectory \<or> excludes_Contains exs (dir @ ''/'' @ Name f)
        \<or> (\<exists>n. lookup (fs w1) (outDir @ [Name f]) = Some n \<and> Date f \<le> ModTime n)"
      using updateFile_mtime [OF st', of q n] Cons.prems(2) by blast
    then consider "Type f = typeDirectory \<or> excludes_Contains exs (dir @ ''/'' @ Name f)"
      | n1 where "lookup (fs w1) (outDir @ [Name f]) = Some n1" "Date f \<le> ModTime n1"
      by blast
    then show ?thesis
    proof cases
      case 1
      then show ?thesis by blast
    next
      case 2
      obtain n' where "lookup (fs w') (outDir @ [Name f]) = Some n'" "ModTime n1 \<le> ModTime n'"
        using ih [of "outDir @ [Name f]" n1] 2(1) by blast
      then show ?thesis using 2(2) by auto
    qed
  qed
  have rest: "\<forall>g\<in>set files. Type g = typeDirectory \<or> excludes_Contains exs (dir @ ''/'' @ Name g)
        \<or> (\<exists>n. lookup (fs w') (outDir @ [Name g]) = Some n \<and> Date g \<le> ModTime n)"
    using ih [of q n] by blast
  show ?case using mono freshf rest by auto
qed


text \<open>
  Hence the second of two updates in a row requests nothing, as long as \<open>os.Chtimes\<close>
  is never refused and no entry of the listing bears the name of the marker.
\<close>

lemma second_update_requests_nothing:
  assumes "updateLocalFiles srv baseURL fl outDir exs removeLocal w = (Inr (), w1)"
    and "\<forall>p. \<not> broken w (OpChtimes p)"
    and "\<forall>f\<in>set (Files fl). Name f \<noteq> dirMarker"
  shows "requests (snd (updateLocalFiles srv baseURL fl outDir exs removeLocal (w1\<lparr>now := t\<rparr>)))
    = requests w1"
proof -
  let ?fresh = "\<lambda>v f. Type f = typeDirectory \<or> excludes_Contains exs (Dir fl @ ''/'' @ Name f)
    \<or> (\<exists>n. lookup (fs v) (outDir @ [Name f]) = Some n \<and> Date f \<le> ModTime n)"
  obtain ra wa where e1: "ensureOutDirExists outDir w = (ra, wa)"
    by (cases "ensureOutDirExists outDir w")
  have ra: "ra = Inr ()" using assms(1) e1 by (cases ra) (simp_all add: updateLocalFiles_def)
  have e1': "ensureOutDirExists outDir w = (Inr (), wa)" using e1 ra by simp
  have loop1: "updateLoop srv baseURL (Dir fl) outDir exs (Files fl) wa = (Inr (), w1)"
    using assms(1) e1 ra by (simp add: updateLocalFiles_def)
  have "broken wa = broken w" using ensureOutDirExists_fields(1) [OF e1'] .
  then have nb: "\<forall>p. \<not> broken wa (OpChtimes p)" using assms(2) by simp
  have fresh1: "\<forall>f\<in>set (Files fl). ?fresh w1 f"
    using updateLoop_mtime [OF loop1 nb] by blast
  obtain t0 where "lookup (fs wa) outDir = Some (Directory t0)"
    using ensureOutDirExists_lookup(1) [OF e1'] by blast
  then have dir1: "lookup (fs w1) outDir \<noteq> None"
    using updateLoop_effect [OF loop1, of outDir t0] by simp
  let ?w2 = "w1\<lparr>now := t\<rparr>"
  obtain rb wb where e2: "ensureOutDirExists outDir ?w2 = (rb, wb)"
    by (cases "ensureOutDirExists outDir ?w2")
  have rq: "requests wb = requests w1"
    using ensureOutDirExists_requests [OF e2] by simp
  show ?thesis
  proof (cases rb)
    case (Inl e)
    then show ?thesis using e2 rq by (simp add: updateLocalFiles_def)
  next
    case (Inr u)
    then have e2': "ensureOutDirExists outDir ?w2 = (Inr (), wb)" using e2 by simp
    have same: "lookup (fs wb) q = lookup (fs w1) q" if "q \<noteq> outDir @ [dirMarker]" for q
      using ensureOutDirExists_frame [OF e2', of q] that dir1 by simp
    have "\<forall>f\<in>set (Files fl). ?fresh wb f"
    proof
      fix f assume f: "f \<in> set (Files fl)"
      then have "outDir @ [Name f] \<noteq> outDir @ [dirMarker]" using assms(3) by simp
      then have "lookup (fs wb) (outDir @ [Name f]) = lookup (fs w1) (outDir @ [Name f])"
        by (rule same)
      then show "?fresh wb f" using fresh1 f by simp
    qed
    then have "snd (updateLoop srv baseURL (Dir fl) outDir exs (Files fl) wb) = wb"
      by (rule updateLoop_fresh)
    then show ?thesis using e2' rq by (simp add: updateLocalFiles_def)
  qed
qed

text \<open>Every error that the loop looks at ends the update at once.\<close>

lemma updateLoop_stops_at_first_error:
  assumes "updateLoop srv baseURL dir outDir exs before w = (Inr (), w1)"
    and "updateFile srv baseURL dir outDir exs f w1 = (Inl e, w2)"
  shows "updateLoop srv baseURL dir outDir exs (before @ f # after) w = (Inl e, w2)"
  using assms
proof (induction before arbitrary: w)
  case Nil
  then show ?case by simp
next
  case (Cons g before)
  obtain r0 w0 where g: "updateFile srv baseURL dir outDir exs g w = (r0, w0)"
    by (cases "updateFile srv baseURL dir outDir exs g w")
  have "r0 = Inr ()" using Cons.prems(1) g by (cases r0) simp_all
  then show ?case using Cons g by simp
qed

lemma updateFile_download_error:
  assumes "Type f \<noteq> typeDirectory" "\<not> excludes_Contains exs (dir @ ''/'' @ Name f)"
    "fst (Stat (outDir @ [Name f]) w) = Inr fi"
    "case fi of None \<Rightarrow> True | Some i \<Rightarrow> ModTime i < Date f"
    "srv (baseURL @ fileDownloadURL @ QueryEscape (dir @ ''/'' @ Name f)) = Inl e"
  shows "fst (updateFile srv baseURL dir outDir exs f w) = Inl e"
  using updateFile_stale [OF assms(1-4), of srv baseURL] assms(5) by simp

lemma updateFile_create_error:
  assumes "Type f \<noteq> typeDirectory" "\<not> excludes_Contains exs (dir @ ''/'' @ Name f)"
    "fst (Stat (outDir @ [Name f]) w) = Inr fi"
    "case fi of None \<Rightarrow> True | Some i \<Rightarrow> ModTime i < Date f"
    "srv (baseURL @ fileDownloadURL @ QueryEscape (dir @ ''/'' @ Name f)) = Inr b"
    "broken w (OpCreate (outDir @ [Name f]))"
  shows "fst (updateFile srv baseURL dir outDir exs f w) = Inl EIO"
  using updateFile_stale [OF assms(1-4), of srv baseURL] assms(5,6)
  by (simp add: Create_def)

lemma updateFile_write_error:
  assumes "Type f \<noteq> typeDirectory" "\<not> excludes_Contains exs (dir @ ''/'' @ Name f)"
    "fst (Stat (outDir @ [Name f]) w) = Inr fi"
    "case fi of None \<Rightarrow> True | Some i \<Rightarrow> ModTime i < Date f"
    "srv (baseURL @ fileDownloadURL @ QueryEscape (dir @ ''/'' @ Name f)) = Inr b"
    "broken w (OpWrite (outDir @ [Name f]))"
  shows "\<exists>e. fst (updateFile srv baseURL dir outDir exs f w) = Inl e"
proof -
  let ?p = "outDir @ [Name f]"
  let ?w1 = "w\<lparr>requests := requests w
      @ [baseURL @ fileDownloadURL @ QueryEscape (dir @ ''/'' @ Name f)]\<rparr>"
  obtain r3 w3 where cr: "Create ?p ?w1 = (r3, w3)" by (cases "Create ?p ?w1")
  show ?thesis
  proof (cases r3)
    case (Inl e)
    then show ?thesis using updateFile_stale [OF assms(1-4), of srv baseURL] assms(5) cr by simp
  next
    case (Inr u)
    then have "broken w3 = broken w" using Create_success [of ?p ?w1 u w3] cr by simp
    then have "Write ?p b w3 = (Inl EIO, w3)" using assms(6) by (simp add: Write_def)
    then show ?thesis
      using updateFile_stale [OF assms(1-4), of srv baseURL] assms(5) cr Inr by simp
  qed
qed

text \<open>An error of the update ends the run of \<open>syncFolder\<close>, with nothing done after it.\<close>

lemma syncFolder_update_error:
  assumes "\<not> excludes_Contains exs folder"
    and "getFileList srv address (QueryEscape folder) 0 w = Some (Inr fl, w1)"
    and "updateLocalFiles srv address fl outDir exs removeLocal w1 = (Inl e, w2)"
  shows "syncFolder (Suc k) srv address folder outDir exs removeLocal w = Some (Inl e, w2)"
  using assms by simp

lemma syncSubfolders_error:
  assumes "Type f = typeDirectory"
    and "syncFolder k srv address (dir @ ''/'' @ Name f) (outDir @ [Name f]) exs removeLocal w
           = Some (Inl e, w1)"
  shows "syncSubfolders k srv address dir outDir exs removeLocal (f # files) w = Some (Inl e, w1)"
  using assms by simp

text \<open>
  The end-to-end scenario: the first run of \<open>syncFolder\<close> on an empty tree creates the
  mirror \<open>synced\<close> with four requests; the second run requests the two listings and
  downloads nothing.
\<close>

lemma first_sync_of_duet:
  "map_option (\<lambda>(r, w). (r, fs w, requests w))
     (syncFolder 2 duet ''http://duet'' ''0:/sys'' [''out''] \<lparr>excls = []\<rparr> True
        (idle\<lparr>now := 200\<rparr>))
   = Some (Inr (), fs synced,
       [''http://duet/rr_filelist?dir=0%3A%2Fsys'',
        ''http://duet/rr_download?name=0%3A%2Fsys%2Fa.txt'',
        ''http://duet/rr_filelist?dir=0%3A%2Fsys%2Fsub'',
        ''http://duet/rr_download?name=0%3A%2Fsys%2Fsub%2Fb.txt''])"
  by code_simp

lemma second_sync_of_duet:
  "map_option (\<lambda>(r, w). (r, requests w))
     (syncFolder 2 duet ''http://duet'' ''0:/sys'' [''out''] \<lparr>excls = []\<rparr> True synced)
   = Some (Inr (),
       [''http://duet/rr_filelist?dir=0%3A%2Fsys'',
        ''http://duet/rr_filelist?dir=0%3A%2Fsys%2Fsub''])"
  by code_simp

section \<open>The claims about the mirror updater\<close>

text \<open>
  Claim C3 as stated fails: an entry that the exclude matcher covers is not downloaded
  although the local file is absent. With the exclude \<open>0:/sys/a.txt\<close> and an empty
  local tree, \<open>updateLocalFiles\<close> succeeds, requests \<open>b.txt\<close> only, and leaves
  \<open>out/a.txt\<close> absent.
\<close>

theorem excluded_file_is_not_downloaded:
  "lookup (fs idle) [''out'', ''a.txt''] = None
   \<and> fst (updateLocalFiles fileServer ''http://duet'' twoFiles [''out'']
          (excludes_Set \<lparr>excls = []\<rparr> ''0:/sys/a.txt'') False idle) = Inr ()
   \<and> requests (snd (updateLocalFiles fileServer ''http://duet'' twoFiles [''out'']
          (excludes_Set \<lparr>excls = []\<rparr> ''0:/sys/a.txt'') False idle))
       = [''http://duet/rr_download?name=0%3A%2Fsys%2Fb.txt'']
   \<and> lookup (fs (snd (updateLocalFiles fileServer ''http://duet'' twoFiles [''out'']
          (excludes_Set \<lparr>excls = []\<rparr> ''0:/sys/a.txt'') False idle))) [''out'', ''a.txt'']
       = None"
  by code_simp

text \<open>
  Claim C3, amended: when the loop of \<open>updateLocalFiles\<close> comes to an entry that is
  not a directory and is not covered by the exclude matcher, and \<open>os.Stat\<close> of the
  local path gives no error other than "does not exist", then the download of the file
  is requested iff the local file is absent or its modification time is strictly earlier
  than \<open>Date f\<close>; and when the iteration then ends without error and the operating
  system does not refuse \<open>os.Chtimes\<close>, the local file holds the bytes the server
  sent and its modification time is \<open>Date f\<close> exactly, not the wall clock.
\<close>

theorem updateFile_downloads_iff_stale:
  assumes "Type f \<noteq> typeDirectory"
    and "\<not> excludes_Contains exs (dir @ ''/'' @ Name f)"
    and "fst (Stat (outDir @ [Name f]) w) = Inr fi"
    and "updateFile srv baseURL dir outDir exs f w = (r, w')"
  shows "((fi = None \<or> (\<exists>i. fi = Some i \<and> ModTime i < Date f))
          \<longleftrightarrow> requests w' = requests w
                @ [baseURL @ fileDownloadURL @ QueryEscape (dir @ ''/'' @ Name f)])
     \<and> (requests w' \<noteq> requests w \<and> r = Inr ()
          \<and> \<not> broken w (OpChtimes (outDir @ [Name f]))
        \<longrightarrow> (\<exists>b. srv (baseURL @ fileDownloadURL @ QueryEscape (dir @ ''/'' @ Name f)) = Inr b
              \<and> lookup (fs w') (outDir @ [Name f]) = Some (Regular b (Date f))))"
proof (cases "case fi of None \<Rightarrow> True | Some i \<Rightarrow> ModTime i < Date f")
  case True
  note d = updateFile_download_result [OF assms(1-3) True assms(4)]
  have stale: "fi = None \<or> (\<exists>i. fi = Some i \<and> ModTime i < Date f)"
    using True by (cases fi) auto
  have req: "requests w' = requests w
      @ [baseURL @ fileDownloadURL @ QueryEscape (dir @ ''/'' @ Name f)]"
    using d by blast
  have "\<exists>b. srv (baseURL @ fileDownloadURL @ QueryEscape (dir @ ''/'' @ Name f)) = Inr b
          \<and> lookup (fs w') (outDir @ [Name f]) = Some (Regular b (Date f))"
    if "r = Inr ()" "\<not> broken w (OpChtimes (outDir @ [Name f]))"
    using d that by auto
  then show ?thesis using stale req by blast
next
  case False
  then obtain i where i: "fi = Some i" "\<not> ModTime i < Date f"
    by (cases fi) auto
  have "updateFile srv baseURL dir outDir exs f w = (Inr (), w)"
    using updateFile_up_to_date [OF assms(1,2)] assms(3) i by simp
  then have "w' = w" using assms(4) by simp
  then show ?thesis using i by simp
qed

theorem updateFile_downloads_iff_stale_witness:
  "requests (snd (updateFile fileServer ''http://duet'' ''0:/sys'' [''out''] \<lparr>excls = []\<rparr>
       \<lparr>Type = ''f'', Name = ''a.txt'', Size = 4, Date = 150\<rparr> mirrored))
     = [''http://duet'' @ fileDownloadURL @ QueryEscape (''0:/sys'' @ ''/'' @ ''a.txt'')]
   \<and> lookup (fs (snd (updateFile fileServer ''http://duet'' ''0:/sys'' [''out''] \<lparr>excls = []\<rparr>
       \<lparr>Type = ''f'', Name = ''a.txt'', Size = 4, Date = 150\<rparr> mirrored))) [''out'', ''a.txt'']
     = Some (Regular (Raw ''data'') 150)"
proof -
  let ?f = "\<lparr>Type = ''f'', Name = ''a.txt'', Size = 4, Date = 150\<rparr>"
  let ?X = "updateFile fileServer ''http://duet'' ''0:/sys'' [''out''] \<lparr>excls = []\<rparr> ?f mirrored"
  have 1: "Type ?f \<noteq> typeDirectory" by (simp add: typeDirectory_def)
  have 2: "\<not> excludes_Contains \<lparr>excls = []\<rparr> (''0:/sys'' @ ''/'' @ Name ?f)"
    by (simp add: excludes_Contains_def)
  have 3: "fst (Stat ([''out''] @ [Name ?f]) mirrored) = Inr (Some (Regular (Raw ''A'') 100))"
    by code_simp
  have 4: "?X = (fst ?X, snd ?X)" by simp
  have 5: "fst ?X = Inr ()" by code_simp
  have 6: "\<not> broken mirrored (OpChtimes ([''out''] @ [Name ?f]))" by (simp add: mirrored_def)
  have 7: "requests mirrored = []" by (simp add: mirrored_def)
  note t = updateFile_downloads_iff_stale [OF 1 2 3 4]
  show ?thesis using t 5 6 7 by (simp add: fileServer_def)
qed

text \<open>
  Claim C7 does not hold of the code. The listing \<open>markerListing\<close> has a file with the
  name of the marker, dated 100, and the local clock shows 0. The first update
  succeeds and downloads the file. The second update, started in the world the first one
  left, rewrites the marker at the beginning of \<open>ensureOutDirExists\<close>, which sets its
  modification time back to the wall clock, and downloads the file again.
\<close>

theorem second_update_downloads_marker_again:
  "fst (updateLocalFiles fileServer ''http://duet'' markerListing [''out''] \<lparr>excls = []\<rparr> False
          idle) = Inr ()
   \<and> requests (snd (updateLocalFiles fileServer ''http://duet'' markerListing [''out'']
          \<lparr>excls = []\<rparr> False idle))
       = [''http://duet/rr_download?name=0%3A%2Fsys%2F.duetbackup'']
   \<and> fst (updateLocalFiles fileServer ''http://duet'' markerListing [''out''] \<lparr>excls = []\<rparr> False
          (snd (updateLocalFiles fileServer ''http://duet'' markerListing [''out'']
             \<lparr>excls = []\<rparr> False idle))) = Inr ()
   \<and> requests (snd (updateLocalFiles fileServer ''http://duet'' markerListing [''out'']
          \<lparr>excls = []\<rparr> False
          (snd (updateLocalFiles fileServer ''http://duet'' markerListing [''out'']
             \<lparr>excls = []\<rparr> False idle))))
       = [''http://duet/rr_download?name=0%3A%2Fsys%2F.duetbackup'',
          ''http://duet/rr_download?name=0%3A%2Fsys%2F.duetbackup'']"
  by code_simp

text \<open>
  Claim C8 does not hold of the code. In the world \<open>chtimesRefused\<close> the call
  \<open>os.Chtimes\<close> for \<open>out/a.txt\<close> fails with \<open>EPERM\<close>. \<open>updateLocalFiles\<close> drops
  that error: it returns no error, goes on to download \<open>b.txt\<close>, and leaves \<open>a.txt\<close>
  with the wall-clock time 500 where the listing says 100.
\<close>

theorem failed_Chtimes_is_not_fatal:
  "fst (updateLocalFiles fileServer ''http://duet'' twoFiles [''out''] \<lparr>excls = []\<rparr> False
          chtimesRefused) = Inr ()
   \<and> requests (snd (updateLocalFiles fileServer ''http://duet'' twoFiles [''out'']
          \<lparr>excls = []\<rparr> False chtimesRefused))
       = [''http://duet/rr_download?name=0%3A%2Fsys%2Fa.txt'',
          ''http://duet/rr_download?name=0%3A%2Fsys%2Fb.txt'']
   \<and> fst (Chtimes [''out'', ''a.txt''] 100 chtimesRefused) = Inl EPERM
   \<and> lookup (fs (snd (updateLocalFiles fileServer ''http://duet'' twoFiles [''out'']
          \<lparr>excls = []\<rparr> False chtimesRefused))) [''out'', ''a.txt'']
       = Some (Regular (Raw ''data'') 500)"
  by code_simp

text \<open>
  Claim C9: when \<open>ensureOutDirExists\<close> succeeds, \<open>outDir\<close> is a directory, the marker
  inside it is an empty file written at that moment, and, where \<open>outDir\<close> was absent,
  every segment of the path is a directory; after a successful \<open>updateLocalFiles\<close>
  the directory exists and holds a marker entry. The call does not fail because the
  directory exists: whenever the operating system refuses none of the three calls, no
  segment of \<open>outDir\<close> is a regular file and the marker path is not a directory,
  \<open>ensureOutDirExists\<close> succeeds, for an existing directory as for an absent one.
\<close>

theorem ensureOutDirExists_makes_managed:
  "(ensureOutDirExists outDir w = (Inr (), w1) \<longrightarrow>
       (\<exists>t. lookup (fs w1) outDir = Some (Directory t))
     \<and> lookup (fs w1) (outDir @ [dirMarker]) = Some (Regular (Raw []) (now w))
     \<and> (lookup (fs w) outDir = None \<longrightarrow>
          (\<forall>q. prefix q outDir \<longrightarrow> (\<exists>t. lookup (fs w1) q = Some (Directory t)))))
   \<and> (updateLocalFiles srv baseURL fl outDir exs removeLocal w = (Inr (), w') \<longrightarrow>
       (\<exists>t. lookup (fs w') outDir = Some (Directory t))
     \<and> lookup (fs w') (outDir @ [dirMarker]) \<noteq> None)
   \<and> (\<not> broken w (OpStat outDir) \<and> \<not> broken w (OpMkdirAll outDir)
      \<and> \<not> broken w (OpCreate (outDir @ [dirMarker]))
      \<and> (\<forall>q c t. prefix q outDir \<longrightarrow> lookup (fs w) q \<noteq> Some (Regular c t))
      \<and> (\<forall>t. lookup (fs w) (outDir @ [dirMarker]) \<noteq> Some (Directory t))
      \<longrightarrow> fst (ensureOutDirExists outDir w) = Inr ())"
proof (intro conjI impI)
  assume e: "ensureOutDirExists outDir w = (Inr (), w1)"
  show "\<exists>t. lookup (fs w1) outDir = Some (Directory t)"
    using e by (rule ensureOutDirExists_lookup(1))
  show "lookup (fs w1) (outDir @ [dirMarker]) = Some (Regular (Raw []) (now w))"
    using e by (rule ensureOutDirExists_lookup(2))
  show "\<forall>q. prefix q outDir \<longrightarrow> (\<exists>t. lookup (fs w1) q = Some (Directory t))"
    if "lookup (fs w) outDir = None"
    using ensureOutDirExists_parents [OF e that] by blast
next
  assume u: "updateLocalFiles srv baseURL fl outDir exs removeLocal w = (Inr (), w')"
  obtain r1 w1 where e: "ensureOutDirExists outDir w = (r1, w1)"
    by (cases "ensureOutDirExists outDir w")
  have r1: "r1 = Inr ()" using u e by (cases r1) (simp_all add: updateLocalFiles_def)
  have run: "updateLoop srv baseURL (Dir fl) outDir exs (Files fl) w1 = (Inr (), w')"
    using u e r1 by (simp add: updateLocalFiles_def)
  have e': "ensureOutDirExists outDir w = (Inr (), w1)" using e r1 by simp
  obtain t where t: "lookup (fs w1) outDir = Some (Directory t)"
    using ensureOutDirExists_lookup(1) [OF e'] by blast
  have m: "lookup (fs w1) (outDir @ [dirMarker]) \<noteq> None"
    using ensureOutDirExists_lookup(2) [OF e'] by simp
  show "\<exists>t. lookup (fs w') outDir = Some (Directory t)"
    using updateLoop_effect [OF run, of outDir t] t by blast
  show "lookup (fs w') (outDir @ [dirMarker]) \<noteq> None"
    using updateLoop_effect [OF run, of "outDir @ [dirMarker]"] m by blast
next
  assume "\<not> broken w (OpStat outDir) \<and> \<not> broken w (OpMkdirAll outDir)
      \<and> \<not> broken w (OpCreate (outDir @ [dirMarker]))
      \<and> (\<forall>q c t. prefix q outDir \<longrightarrow> lookup (fs w) q \<noteq> Some (Regular c t))
      \<and> (\<forall>t. lookup (fs w) (outDir @ [dirMarker]) \<noteq> Some (Directory t))"
  then show "fst (ensureOutDirExists outDir w) = Inr ()"
    using ensureOutDirExists_total by blast
qed


theorem ensureOutDirExists_makes_managed_witness:
  "fst (ensureOutDirExists [''backup'', ''duet''] idle) = Inr ()
   \<and> (\<exists>t. lookup (fs (snd (ensureOutDirExists [''backup'', ''duet''] idle))) [''backup'']
          = Some (Directory t))
   \<and> (\<exists>t. lookup (fs (snd (ensureOutDirExists [''backup'', ''duet''] idle)))
          [''backup'', ''duet''] = Some (Directory t))
   \<and> lookup (fs (snd (ensureOutDirExists [''backup'', ''duet''] idle)))
          [''backup'', ''duet'', ''.duetbackup''] = Some (Regular (Raw []) 0)
   \<and> lookup (fs (snd (updateLocalFiles fileServer ''http://duet'' twoFiles
          [''backup'', ''duet''] \<lparr>excls = []\<rparr> False idle)))
          [''backup'', ''duet'', ''.duetbackup''] \<noteq> None
   \<and> fst (ensureOutDirExists [''out''] mirrored) = Inr ()"
proof -
  let ?p = "[''backup'', ''duet'']"
  let ?E = "ensureOutDirExists ?p idle"
  let ?U = "updateLocalFiles fileServer ''http://duet'' twoFiles ?p \<lparr>excls = []\<rparr> False idle"
  note t = ensureOutDirExists_makes_managed
    [of ?p idle "snd ?E" fileServer "''http://duet''" twoFiles "\<lparr>excls = []\<rparr>" False "snd ?U"]
  have ok: "fst ?E = Inr ()"
    using t by (simp add: idle_def lookup_def)
  then have e: "?E = (Inr (), snd ?E)" by (metis prod.collapse)
  have "fst ?U = Inr ()" by code_simp
  then have u: "?U = (Inr (), snd ?U)" by (metis prod.collapse)
  have absent: "lookup (fs idle) ?p = None" by (simp add: idle_def lookup_def)
  have d1: "\<exists>t. lookup (fs (snd ?E)) [''backup''] = Some (Directory t)"
    using t e absent by (metis prefixI append_Cons append_Nil)
  have d2: "\<exists>t. lookup (fs (snd ?E)) ?p = Some (Directory t)"
    using t e by blast
  have m: "lookup (fs (snd ?E)) (?p @ [dirMarker]) = Some (Regular (Raw []) (now idle))"
    using t e by blast
  have m': "lookup (fs (snd ?U)) (?p @ [dirMarker]) \<noteq> None"
    using t u by blast
  have ex: "fst (ensureOutDirExists [''out''] mirrored) = Inr ()"
    using ensureOutDirExists_makes_managed [of "[''out'']" mirrored]
    by (auto simp: mirrored_def lookup_def dirMarker_def prefix_Cons)
  show ?thesis using ok d1 d2 m m' ex by (simp add: dirMarker_def idle_def)
qed

end
